theory Spec2Isabelle
  imports Main "HOL-Library.Sublist" "HOL-Library.AList"
begin

section \<open>Platform: strings, numbers, objects\<close>

text \<open>
  A JavaScript string is modelled as a \<^typ>\<open>string\<close>: a list of code units below 256.
  Among those, the white space of \<open>trim\<close>, \<open>parseInt\<close> and \<open>\s\<close> is TAB, LF, VT, FF, CR,
  SPACE and NBSP, and the line terminators of \<open>.\<close>, \<open>^\<close> and \<open>$\<close> are LF and CR.
\<close>

definition LF :: char where
  "LF = CHR 0x0A"

definition CR :: char where
  "CR = CHR 0x0D"


definition SQUOTE :: char where
  "SQUOTE = CHR 0x27"

definition BACKTICK :: char where
  "BACKTICK = CHR 0x60"

definition BACKSLASH :: char where
  "BACKSLASH = CHR 0x5C"

definition isWhiteSpace :: "char \<Rightarrow> bool" where
  "isWhiteSpace c \<longleftrightarrow> c \<in> set [CHR 0x09, LF, CHR 0x0B, CHR 0x0C, CR, CHR 0x20, CHR 0xA0]"

definition isLineTerminator :: "char \<Rightarrow> bool" where
  "isLineTerminator c \<longleftrightarrow> c = LF \<or> c = CR"

definition isDigit :: "char \<Rightarrow> bool" where
  "isDigit c \<longleftrightarrow> (48::nat) \<le> of_char c \<and> (of_char c :: nat) \<le> 57"

text \<open>\<open>String.prototype.trim\<close>.\<close>

definition trim :: "string \<Rightarrow> string" where
  "trim s = rev (dropWhile isWhiteSpace (rev (dropWhile isWhiteSpace s)))"

text \<open>\<open>s.split(d)\<close> for a separator of one character: never an empty list.\<close>

fun splitOn :: "char \<Rightarrow> string \<Rightarrow> string list" where
  "splitOn d [] = [[]]"
| "splitOn d (c # cs) =
     (if c = d then [] # splitOn d cs
      else (case splitOn d cs of
              [] \<Rightarrow> [[c]]
            | w # ws \<Rightarrow> (c # w) # ws))"





text \<open>
  A JavaScript number, as far as this program computes with them: an integer (within the
  range that doubles represent exactly) or \<open>NaN\<close>.
\<close>

datatype jsnum = Num int | NaN

fun numPlus :: "jsnum \<Rightarrow> int \<Rightarrow> jsnum" where
  "numPlus (Num b) k = Num (b + k)"
| "numPlus NaN k = NaN"

fun truthy :: "jsnum \<Rightarrow> bool" where
  "truthy (Num b) \<longleftrightarrow> b \<noteq> 0"
| "truthy NaN \<longleftrightarrow> False"

definition digitChar :: "nat \<Rightarrow> char" where
  "digitChar d = ''0123456789'' ! d"

fun decimal :: "nat \<Rightarrow> string" where
  "decimal n =
     (if n < 10 then [digitChar n]
      else decimal (n div 10) @ [digitChar (n mod 10)])"

declare decimal.simps [simp del]

definition intToString :: "int \<Rightarrow> string" where
  "intToString i = (if i < 0 then CHR ''-'' # decimal (nat (- i)) else decimal (nat i))"

fun toString :: "jsnum \<Rightarrow> string" where
  "toString (Num b) = intToString b"
| "toString NaN = ''NaN''"

text \<open>\<open>parseInt(s, 10)\<close>: white space, a sign, then the longest run of digits.\<close>

definition digitsValue :: "string \<Rightarrow> int" where
  "digitsValue ds = foldl (\<lambda>a d. 10 * a + (int (of_char d) - 48)) 0 ds"


text \<open>
  What a call gives: a value, an exception, or \<open>Unmodelled\<close> where this model does not
  decide what the platform does (a regular expression beyond literal text, the text of an
  inherited property). \<open>IOError\<close> stands for the errors of the file system (\<open>ENOENT\<close>,
  \<open>ENOTDIR\<close>, \<open>EISDIR\<close>).
\<close>

datatype js_error = TypeError | SyntaxError | GitError | IOError

datatype 'a result = Ok 'a | Throws js_error | Unmodelled

section \<open>Configuration (config-loader)\<close>

record FileUpdate =
  filePath :: string
  updateType :: string
  spec :: string
  searchPattern :: "string option"
  replacement :: "string option"


text \<open>
  \<open>Object.entries(obj)\<close>: the keys that are array indices (canonical decimal numerals below
  \<open>2^32 - 1\<close>) first, in ascending numeric order, then the other keys in insertion order.
\<close>

definition arrayIndex :: "string \<Rightarrow> bool" where
  "arrayIndex k \<longleftrightarrow>
     k \<noteq> [] \<and> (\<forall>c \<in> set k. isDigit c) \<and> (k = ''0'' \<or> hd k \<noteq> CHR ''0'') \<and>
     digitsValue k < 4294967295"

definition entries :: "(string \<times> 'v) list \<Rightarrow> (string \<times> 'v) list" where
  "entries obj =
     sort_key (\<lambda>e. digitsValue (fst e)) (filter (\<lambda>e. arrayIndex (fst e)) obj) @
     filter (\<lambda>e. \<not> arrayIndex (fst e)) obj"

definition inheritedKeys :: "string list" where
  "inheritedKeys =
     [''constructor'', ''toString'', ''toLocaleString'', ''valueOf'', ''hasOwnProperty'',
      ''isPrototypeOf'', ''propertyIsEnumerable'', ''__proto__'', ''__defineGetter__'',
      ''__defineSetter__'', ''__lookupGetter__'', ''__lookupSetter__'']"

definition nameChar :: "char \<Rightarrow> bool" where
  "nameChar c \<longleftrightarrow>
     (let n = (of_char c :: nat)
      in (65 \<le> n \<and> n \<le> 90) \<or> (97 \<le> n \<and> n \<le> 122) \<or> (48 \<le> n \<and> n \<le> 57) \<or> n = 95)"

text \<open>
  The variable names the theorems below speak about: identifiers of letters, digits and
  underscores that do not start with a digit and are not inherited property names. Such a
  name is literal text inside a regular expression and an ordinary key of an object.
\<close>

definition validName :: "string \<Rightarrow> bool" where
  "validName v \<longleftrightarrow>
     v \<noteq> [] \<and> (\<forall>c \<in> set v. nameChar c) \<and> \<not> isDigit (hd v) \<and> v \<notin> set inheritedKeys"

text \<open>
  \<open>obj[k]\<close>: the entry of the object itself, else the property that every object
  inherits from \<open>Object.prototype\<close> (a function or an object, so truthy), else \<open>undefined\<close>.
\<close>

datatype 'v property = Undefined | Own 'v | Inherited

definition getProperty :: "(string \<times> 'v) list \<Rightarrow> string \<Rightarrow> 'v property" where
  "getProperty obj k =
     (case map_of obj k of
        Some v \<Rightarrow> Own v
      | None \<Rightarrow> if k \<in> set inheritedKeys then Inherited else Undefined)"

record Config =
  startContainers :: bool
  portOffsetIncrement :: int
  envFiles :: "string list"
  portMappings :: "(string \<times> jsnum) list"
  containerNames :: "(string \<times> string) list"
  fileUpdates :: "FileUpdate list"

definition loadDefaultConfig :: Config where
  "loadDefaultConfig =
     \<lparr>startContainers = True, portOffsetIncrement = 10, envFiles = [],
      portMappings = [], containerNames = [], fileUpdates = []\<rparr>"


















section \<open>Platform: regular expressions and replacement\<close>

text \<open>
  A compiled regular expression is modelled by what it matches at one position: given the
  text before the position and the text from it, the length of the match there, if any.
  Only expressions without capture groups are modelled.
\<close>

type_synonym matcher = "string \<Rightarrow> string \<Rightarrow> nat option"

text \<open>A pattern of literal characters \<open>p\<close>, and so \<open>/\{\{NAME\}\}/g\<close> as \<open>literal ''{{NAME}}''\<close>.\<close>

definition literal :: "string \<Rightarrow> matcher" where
  "literal p pre rest = (if prefix p rest then Some (length p) else None)"

text \<open>
  \<open>new RegExp(`^${varName}=.*$`, 'gm')\<close> for a \<open>varName\<close> of literal characters: at the
  start of a line that begins with \<open>varName=\<close>, the whole line.
\<close>

definition lineRegex :: "string \<Rightarrow> matcher" where
  "lineRegex varName pre rest =
     (if (pre = [] \<or> isLineTerminator (last pre)) \<and> prefix (varName @ ''='') rest
      then Some (length (takeWhile (\<lambda>c. \<not> isLineTerminator c) rest))
      else None)"

text \<open>
  \<open>GetSubstitution\<close> for a match without captures: \<open>$$\<close>, \<open>$&\<close>, \<open>$`\<close> and \<open>$'\<close> expand,
  every other character (also \<open>$1\<close> and \<open>$<\<close>) stands for itself.
\<close>

fun getSubstitution :: "string \<Rightarrow> string \<Rightarrow> string \<Rightarrow> string \<Rightarrow> string" where
  "getSubstitution matched pre after [] = []"
| "getSubstitution matched pre after [c] = [c]"
| "getSubstitution matched pre after (c # d # r) =
     (if c = CHR ''$'' \<and> d = CHR ''$'' then CHR ''$'' # getSubstitution matched pre after r
      else if c = CHR ''$'' \<and> d = CHR ''&'' then matched @ getSubstitution matched pre after r
      else if c = CHR ''$'' \<and> d = BACKTICK then pre @ getSubstitution matched pre after r
      else if c = CHR ''$'' \<and> d = SQUOTE then after @ getSubstitution matched pre after r
      else c # getSubstitution matched pre after (d # r))"

text \<open>
  \<open>content.replace(regex, replacement)\<close> with the \<open>g\<close> flag: matches are looked for from left
  to right, each after the end of the one before (one further after an empty match);
  \<open>skip\<close> counts the characters of the current match still to pass.
\<close>

fun replaceFrom :: "matcher \<Rightarrow> string \<Rightarrow> string \<Rightarrow> string \<Rightarrow> nat \<Rightarrow> string" where
  "replaceFrom m repl pre [] skip =
     (case m pre [] of
        None \<Rightarrow> []
      | Some n \<Rightarrow> getSubstitution [] pre [] repl)"
| "replaceFrom m repl pre (c # cs) skip =
     (if 0 < skip then replaceFrom m repl (pre @ [c]) cs (skip - 1)
      else (case m pre (c # cs) of
              None \<Rightarrow> c # replaceFrom m repl (pre @ [c]) cs 0
            | Some n \<Rightarrow>
                getSubstitution (take n (c # cs)) pre (drop n (c # cs)) repl @
                (if n = 0 then c # replaceFrom m repl (pre @ [c]) cs 0
                 else replaceFrom m repl (pre @ [c]) cs (n - 1))))"

definition replaceAll :: "matcher \<Rightarrow> string \<Rightarrow> string \<Rightarrow> string" where
  "replaceAll m repl content = replaceFrom m repl [] content 0"

text \<open>\<open>regex.test(content)\<close> on a fresh expression: is there a match anywhere.\<close>

fun testFrom :: "matcher \<Rightarrow> string \<Rightarrow> string \<Rightarrow> bool" where
  "testFrom m pre [] \<longleftrightarrow> m pre [] \<noteq> None"
| "testFrom m pre (c # cs) \<longleftrightarrow> m pre (c # cs) \<noteq> None \<or> testFrom m (pre @ [c]) cs"

definition test :: "matcher \<Rightarrow> string \<Rightarrow> bool" where
  "test m content \<longleftrightarrow> testFrom m [] content"

text \<open>
  \<open>new RegExp(searchPattern, 'g')\<close>. A pattern without syntax characters matches itself; a
  pattern that starts with a quantifier does not compile (\<open>SyntaxError\<close>: nothing to
  repeat); every other pattern is outside this model.
\<close>

datatype compiled = Regex matcher | RegexSyntaxError | RegexOutsideModel

definition syntaxChar :: "char \<Rightarrow> bool" where
  "syntaxChar c \<longleftrightarrow> c = BACKSLASH \<or> c \<in> set ''^$.*+?()[]{}|''"

definition RegExp :: "string \<Rightarrow> compiled" where
  "RegExp pattern =
     (if \<forall>c \<in> set pattern. \<not> syntaxChar c then Regex (literal pattern)
      else if hd pattern \<in> set ''*+?'' then RegexSyntaxError
      else RegexOutsideModel)"

text \<open>
  An expression into which a name is interpolated unescaped, as in
  \<open>new RegExp(`^${varName}=.*$`, 'gm')\<close> and \<open>new RegExp(`\\{\\{${portVar}\\}\\}`, 'g')\<close>.
  A name without syntax characters is literal text and the expression is the matcher \<open>m\<close>
  given for that case. A name with an opening parenthesis and no closing parenthesis,
  bracket or backslash leaves a group open: the expression does not compile. Every other
  name is outside this model.
\<close>

definition unclosedGroup :: "string \<Rightarrow> bool" where
  "unclosedGroup name \<longleftrightarrow>
     CHR ''('' \<in> set name \<and> CHR '')'' \<notin> set name \<and> CHR ''['' \<notin> set name
     \<and> BACKSLASH \<notin> set name"

definition interpolated :: "string \<Rightarrow> matcher \<Rightarrow> compiled" where
  "interpolated name m =
     (if \<forall>c \<in> set name. \<not> syntaxChar c then Regex m
      else if unclosedGroup name then RegexSyntaxError
      else RegexOutsideModel)"

text \<open>
  With a line terminator in the name, a match of \<open>^varName=.*$\<close> spans lines: outside this
  model.
\<close>

definition lineRegExp :: "string \<Rightarrow> compiled" where
  "lineRegExp varName =
     (if \<exists>c \<in> set varName. isLineTerminator c then RegexOutsideModel
      else interpolated varName (lineRegex varName))"

definition placeholderRegExp :: "string \<Rightarrow> compiled" where
  "placeholderRegExp portVar = interpolated portVar (literal (''{{'' @ portVar @ ''}}''))"

section \<open>File system\<close>

text \<open>
  \<open>path.join\<close> (POSIX): the non-empty arguments with a slash between them, normalised.
  \<open>path.normalize\<close> drops the empty and the \<open>.\<close> segments, lets a \<open>..\<close> segment remove the
  segment before it (kept at the front of a relative path, dropped at the root), and keeps
  a leading and a trailing slash.
\<close>

fun normalizeSegments :: "bool \<Rightarrow> string list \<Rightarrow> string list \<Rightarrow> string list" where
  "normalizeSegments allowAboveRoot res [] = res"
| "normalizeSegments allowAboveRoot res (s # ss) =
     (if s = [] \<or> s = ''.'' then normalizeSegments allowAboveRoot res ss
      else if s = ''..''
      then (if res \<noteq> [] \<and> last res \<noteq> ''..''
            then normalizeSegments allowAboveRoot (butlast res) ss
            else if allowAboveRoot then normalizeSegments allowAboveRoot (res @ [''..'']) ss
            else normalizeSegments allowAboveRoot res ss)
      else normalizeSegments allowAboveRoot (res @ [s]) ss)"

fun joinSegments :: "string list \<Rightarrow> string" where
  "joinSegments [] = []"
| "joinSegments [s] = s"
| "joinSegments (s # t # ss) = s @ CHR ''/'' # joinSegments (t # ss)"

definition normalize :: "string \<Rightarrow> string" where
  "normalize p =
     (if p = [] then ''.''
      else let isAbsolute = (hd p = CHR ''/'');
               trailingSeparator = (last p = CHR ''/'');
               r = joinSegments (normalizeSegments (\<not> isAbsolute) [] (splitOn CHR ''/'' p))
           in if r = [] then (if isAbsolute then ''/'' else if trailingSeparator then ''./'' else ''.'')
              else (let r' = (if trailingSeparator then r @ ''/'' else r)
                    in if isAbsolute then CHR ''/'' # r' else r'))"

definition pathJoin :: "string \<Rightarrow> string \<Rightarrow> string" where
  "pathJoin dir p =
     (if dir = [] \<and> p = [] then ''.''
      else if dir = [] then normalize p
      else if p = [] then normalize dir
      else normalize (dir @ CHR ''/'' # p))"

text \<open>
  The file system maps a path to what is there: a regular file with its content, or a
  directory (no symbolic links). The root and the current directory (the empty path) always
  exist. The ancestors of a path are its prefixes before a slash.
\<close>

datatype node = File string | Dir

type_synonym filesystem = "string \<Rightarrow> node option"

fun ancestorsFrom :: "string \<Rightarrow> string \<Rightarrow> string list" where
  "ancestorsFrom pre [] = []"
| "ancestorsFrom pre (c # cs) =
     (if c = CHR ''/'' \<and> pre \<noteq> [] then pre # ancestorsFrom (pre @ [c]) cs
      else ancestorsFrom (pre @ [c]) cs)"

definition ancestors :: "string \<Rightarrow> string list" where
  "ancestors p = ancestorsFrom [] p"

definition dirname :: "string \<Rightarrow> string" where
  "dirname p = (case ancestors p of [] \<Rightarrow> [] | a # as \<Rightarrow> last (a # as))"

definition isFile :: "filesystem \<Rightarrow> string \<Rightarrow> bool" where
  "isFile fs p \<longleftrightarrow> (case fs p of Some (File c) \<Rightarrow> True | _ \<Rightarrow> False)"

definition isDirectory :: "filesystem \<Rightarrow> string \<Rightarrow> bool" where
  "isDirectory fs p \<longleftrightarrow> p = [] \<or> fs p = Some Dir"

definition pathExists :: "filesystem \<Rightarrow> string \<Rightarrow> bool" where
  "pathExists fs p \<longleftrightarrow> fs p \<noteq> None"

definition mkdirs :: "filesystem \<Rightarrow> string list \<Rightarrow> filesystem" where
  "mkdirs fs ds = foldl (\<lambda>fs d. fs(d \<mapsto> Dir)) fs ds"

text \<open>
  \<open>fs.ensureFile\<close> (fs-extra): nothing to do for a regular file; a regular file on the way
  to the path is an error; else the missing directories are made and the file is written
  empty (which is an error when the path is a directory).
\<close>

definition ensureFile :: "filesystem \<Rightarrow> string \<Rightarrow> filesystem result" where
  "ensureFile fs p =
     (case fs p of
        Some (File c) \<Rightarrow> Ok fs
      | Some Dir \<Rightarrow> Throws IOError
      | None \<Rightarrow>
          if \<exists>a \<in> set (ancestors p). isFile fs a then Throws IOError
          else Ok ((mkdirs fs (ancestors p))(p \<mapsto> File [])))"

definition readFile :: "filesystem \<Rightarrow> string \<Rightarrow> string result" where
  "readFile fs p = (case fs p of Some (File c) \<Rightarrow> Ok c | _ \<Rightarrow> Throws IOError)"

text \<open>
  \<open>fs.writeFile\<close> and \<open>fs.appendFile\<close> create the file when it is missing, and only the
  file: a missing parent directory is an error (\<open>ENOENT\<close>).
\<close>

definition writeFile :: "filesystem \<Rightarrow> string \<Rightarrow> string \<Rightarrow> filesystem result" where
  "writeFile fs p content =
     (case fs p of
        Some (File c) \<Rightarrow> Ok (fs(p \<mapsto> File content))
      | Some Dir \<Rightarrow> Throws IOError
      | None \<Rightarrow>
          if isDirectory fs (dirname p) then Ok (fs(p \<mapsto> File content)) else Throws IOError)"

definition appendFile :: "filesystem \<Rightarrow> string \<Rightarrow> string \<Rightarrow> filesystem result" where
  "appendFile fs p content =
     (case fs p of
        Some (File c) \<Rightarrow> Ok (fs(p \<mapsto> File (c @ content)))
      | Some Dir \<Rightarrow> Throws IOError
      | None \<Rightarrow>
          if isDirectory fs (dirname p) then Ok (fs(p \<mapsto> File content)) else Throws IOError)"

section \<open>Environment updater\<close>

text \<open>
  The index resolver (\<open>GitManager.getWorktreeIndex\<close>, a query to \<open>git\<close>) is a parameter: a
  function from the worktree name to the index or to the error it throws. A run ends with
  the file system it has reached (\<open>Done\<close>), with an exception and the file system at that
  moment (\<open>Threw\<close>), or outside the model.
\<close>

type_synonym resolver = "string \<Rightarrow> js_error + int"

datatype outcome = Done filesystem | Threw js_error filesystem | OutsideModel

text \<open>The next step on the value of a call; an exception leaves the file system \<open>fs\<close>.\<close>

definition attempt :: "filesystem \<Rightarrow> 'a result \<Rightarrow> ('a \<Rightarrow> outcome) \<Rightarrow> outcome" where
  "attempt fs r next =
     (case r of Ok x \<Rightarrow> next x | Throws e \<Rightarrow> Threw e fs | Unmodelled \<Rightarrow> OutsideModel)"

text \<open>A \<open>for\<close> loop over \<open>xs\<close> whose body rewrites the content and may throw.\<close>

fun forEach :: "('a \<Rightarrow> string \<Rightarrow> string result) \<Rightarrow> 'a list \<Rightarrow> string \<Rightarrow> string result" where
  "forEach body [] content = Ok content"
| "forEach body (x # xs) content =
     (case body x content of
        Ok content' \<Rightarrow> forEach body xs content'
      | Throws e \<Rightarrow> Throws e
      | Unmodelled \<Rightarrow> Unmodelled)"

definition calculatePortOffset :: "Config \<Rightarrow> resolver \<Rightarrow> string \<Rightarrow> js_error + int" where
  "calculatePortOffset cfg git worktreeName =
     (case git worktreeName of
        Inl e \<Rightarrow> Inl e
      | Inr idx \<Rightarrow> Inr (idx * portOffsetIncrement cfg))"

text \<open>The loop over the port mappings in \<open>substituteTemplate\<close>.\<close>

definition substitutePort :: "int \<Rightarrow> string \<times> jsnum \<Rightarrow> string \<Rightarrow> string result" where
  "substitutePort portOffset entry text =
     (case placeholderRegExp (fst entry) of
        Regex regex \<Rightarrow> Ok (replaceAll regex (toString (numPlus (snd entry) portOffset)) text)
      | RegexSyntaxError \<Rightarrow> Throws SyntaxError
      | RegexOutsideModel \<Rightarrow> Unmodelled)"

definition substituteTemplate ::
  "Config \<Rightarrow> string \<Rightarrow> string \<Rightarrow> int \<Rightarrow> int \<Rightarrow> string result" where
  "substituteTemplate cfg template worktreeName worktreeIndex portOffset =
     (let r1 = replaceAll (literal ''{{WORKTREE_NAME}}'') worktreeName template;
          r2 = replaceAll (literal ''{{WORKTREE_INDEX}}'') (intToString worktreeIndex) r1
      in forEach (substitutePort portOffset) (entries (portMappings cfg)) r2)"

text \<open>
  The body shared by the three upsert loops (\<open>updateEnvVars\<close>, \<open>updatePortVariables\<close>,
  \<open>updateContainerNames\<close>): compile the expression, test, then replace or append.
\<close>

definition upsertWith :: "matcher \<Rightarrow> string \<Rightarrow> string \<Rightarrow> string \<Rightarrow> string" where
  "upsertWith regex varName val content =
     (if test regex content
      then replaceAll regex (varName @ ''='' @ val) content
      else content @ [LF] @ varName @ ''='' @ val)"

definition upsert :: "string \<Rightarrow> string \<Rightarrow> string \<Rightarrow> string result" where
  "upsert varName val content =
     (case lineRegExp varName of
        Regex regex \<Rightarrow> Ok (upsertWith regex varName val content)
      | RegexSyntaxError \<Rightarrow> Throws SyntaxError
      | RegexOutsideModel \<Rightarrow> Unmodelled)"

text \<open>
  One turn of the loop of \<open>updateEnvVars\<close>. An inherited property passes the guard
  \<open>if (basePort)\<close>; the text that \<open>basePort + portOffset\<close> then is, is the platform's.
\<close>

definition envVarStep :: "Config \<Rightarrow> int \<Rightarrow> string \<Rightarrow> string \<Rightarrow> string result" where
  "envVarStep cfg portOffset content varName =
     (case getProperty (portMappings cfg) varName of
        Undefined \<Rightarrow> Ok content
      | Inherited \<Rightarrow> Unmodelled
      | Own basePort \<Rightarrow>
          if truthy basePort
          then upsert varName (toString (numPlus basePort portOffset)) content
          else Ok content)"

definition updateEnvVars :: "Config \<Rightarrow> string \<Rightarrow> string \<Rightarrow> int \<Rightarrow> filesystem \<Rightarrow> outcome" where
  "updateEnvVars cfg target varSpec portOffset fs =
     (let vars = map trim (splitOn CHR '','' varSpec)
      in attempt fs (if pathExists fs target then Ok fs else ensureFile fs target) (\<lambda>fs1.
         attempt fs1 (readFile fs1 target) (\<lambda>content.
         attempt fs1 (forEach (\<lambda>varName content. envVarStep cfg portOffset content varName)
                        vars content) (\<lambda>content'.
         attempt fs1 (writeFile fs1 target content') Done))))"

text \<open>
  In \<open>replaceInFile\<close> the replacement is rendered before the search pattern is compiled.
  Where the rendering is outside the model it returns a text or throws a \<open>SyntaxError\<close>; a
  search pattern that does not compile then makes the call throw a \<open>SyntaxError\<close> either way.
\<close>

definition replaceInFile ::
  "Config \<Rightarrow> resolver \<Rightarrow> string \<Rightarrow> string option \<Rightarrow> string option \<Rightarrow> string \<Rightarrow> int \<Rightarrow>
   filesystem \<Rightarrow> outcome" where
  "replaceInFile cfg git target pat repl0 worktreeName worktreeIndex fs =
     (if \<not> pathExists fs target then Done fs
      else attempt fs (readFile fs target) (\<lambda>content.
        case calculatePortOffset cfg git worktreeName of
          Inl e \<Rightarrow> Threw e fs
        | Inr portOffset \<Rightarrow>
            (case repl0 of
               None \<Rightarrow> Threw TypeError fs
             | Some repl \<Rightarrow>
                 (case substituteTemplate cfg repl worktreeName worktreeIndex portOffset of
                    Throws e \<Rightarrow> Threw e fs
                  | Unmodelled \<Rightarrow>
                      (case RegExp (case pat of None \<Rightarrow> [] | Some p \<Rightarrow> p) of
                         RegexSyntaxError \<Rightarrow> Threw SyntaxError fs
                       | _ \<Rightarrow> OutsideModel)
                  | Ok substitutedReplacement \<Rightarrow>
                      (case RegExp (case pat of None \<Rightarrow> [] | Some p \<Rightarrow> p) of
                         RegexSyntaxError \<Rightarrow> Threw SyntaxError fs
                       | RegexOutsideModel \<Rightarrow> OutsideModel
                       | Regex regex \<Rightarrow>
                           attempt fs
                             (writeFile fs target
                                (replaceAll regex substitutedReplacement content))
                             Done)))))"

definition processFileUpdate ::
  "Config \<Rightarrow> resolver \<Rightarrow> FileUpdate \<Rightarrow> string \<Rightarrow> string \<Rightarrow> int \<Rightarrow> int \<Rightarrow> filesystem \<Rightarrow>
   outcome" where
  "processFileUpdate cfg git update worktreeName worktreeDir worktreeIndex portOffset fs =
     (let fullPath = pathJoin worktreeDir (filePath update)
      in if updateType update = ''env_vars''
         then updateEnvVars cfg fullPath (spec update) portOffset fs
         else if updateType update = ''replace''
         then replaceInFile cfg git fullPath (searchPattern update) (replacement update)
                worktreeName worktreeIndex fs
         else if updateType update = ''append''
         then attempt fs
                (substituteTemplate cfg (spec update) worktreeName worktreeIndex portOffset)
                (\<lambda>content. attempt fs (appendFile fs fullPath (LF # content)) Done)
         else Done fs)"

definition updatePortVariables ::
  "string \<Rightarrow> (string \<times> jsnum) list \<Rightarrow> int \<Rightarrow> filesystem \<Rightarrow> outcome" where
  "updatePortVariables worktreeDir pm portOffset fs =
     (let envPath = pathJoin worktreeDir ''.env''
      in attempt fs (if pathExists fs envPath then Ok fs else ensureFile fs envPath) (\<lambda>fs1.
         attempt fs1 (readFile fs1 envPath) (\<lambda>content.
         attempt fs1 (forEach (\<lambda>(varName, basePort) content.
                                  upsert varName (toString (numPlus basePort portOffset)) content)
                        (entries pm) content) (\<lambda>content'.
         attempt fs1 (writeFile fs1 envPath content') Done))))"

definition updateContainerNames ::
  "Config \<Rightarrow> string \<Rightarrow> (string \<times> string) list \<Rightarrow> string \<Rightarrow> int \<Rightarrow> filesystem \<Rightarrow> outcome"
  where
  "updateContainerNames cfg worktreeDir cn worktreeName worktreeIndex fs =
     (let envPath = pathJoin worktreeDir ''.env''
      in attempt fs (if pathExists fs envPath then Ok fs else ensureFile fs envPath) (\<lambda>fs1.
         attempt fs1 (readFile fs1 envPath) (\<lambda>content.
         attempt fs1 (forEach (\<lambda>(varName, template) content.
                                  case substituteTemplate cfg template worktreeName
                                         worktreeIndex 0 of
                                    Ok containerName \<Rightarrow> upsert varName containerName content
                                  | Throws e \<Rightarrow> Throws e
                                  | Unmodelled \<Rightarrow> Unmodelled)
                        (entries cn) content) (\<lambda>content'.
         attempt fs1 (writeFile fs1 envPath content') Done))))"

text \<open>The loop over \<open>fileUpdates\<close>: an exception of one rule ends it.\<close>

fun processFileUpdates ::
  "Config \<Rightarrow> resolver \<Rightarrow> FileUpdate list \<Rightarrow> string \<Rightarrow> string \<Rightarrow> int \<Rightarrow> int \<Rightarrow> filesystem \<Rightarrow>
   outcome" where
  "processFileUpdates cfg git [] worktreeName worktreeDir worktreeIndex portOffset fs = Done fs"
| "processFileUpdates cfg git (update # updates) worktreeName worktreeDir worktreeIndex portOffset
     fs =
     (case processFileUpdate cfg git update worktreeName worktreeDir worktreeIndex portOffset fs of
        Done fs' \<Rightarrow>
          processFileUpdates cfg git updates worktreeName worktreeDir worktreeIndex portOffset fs'
      | other \<Rightarrow> other)"

text \<open>Steps 4 and 5 of the orchestrator, each skipped when its table is empty.\<close>

definition upsertTables :: "Config \<Rightarrow> string \<Rightarrow> string \<Rightarrow> int \<Rightarrow> int \<Rightarrow> filesystem \<Rightarrow> outcome"
  where
  "upsertTables cfg worktreeName worktreeDir worktreeIndex portOffset fs =
     (case (if portMappings cfg \<noteq> []
            then updatePortVariables worktreeDir (portMappings cfg) portOffset fs
            else Done fs) of
        Done fs1 \<Rightarrow>
          if containerNames cfg \<noteq> []
          then updateContainerNames cfg worktreeDir (containerNames cfg) worktreeName
                 worktreeIndex fs1
          else Done fs1
      | other \<Rightarrow> other)"

definition updateEnvironmentFiles ::
  "Config \<Rightarrow> resolver \<Rightarrow> string \<Rightarrow> string \<Rightarrow> filesystem \<Rightarrow> outcome" where
  "updateEnvironmentFiles cfg git worktreeName worktreeDir fs =
     (case git worktreeName of
        Inl e \<Rightarrow> Threw e fs
      | Inr worktreeIndex \<Rightarrow>
          (case calculatePortOffset cfg git worktreeName of
             Inl e \<Rightarrow> Threw e fs
           | Inr portOffset \<Rightarrow>
               (case processFileUpdates cfg git (fileUpdates cfg) worktreeName worktreeDir
                       worktreeIndex portOffset fs of
                  Done fs1 \<Rightarrow>
                    upsertTables cfg worktreeName worktreeDir worktreeIndex portOffset fs1
                | other \<Rightarrow> other)))"

section \<open>Lines of a text\<close>

text \<open>
  The vocabulary of the properties of the upserts: the lines of a text (the runs between
  line terminators), a function applied to every line with the terminators kept, and the
  values and names that contain no \<open>$\<close> and no line terminator.
\<close>

definition plain :: "string \<Rightarrow> bool" where
  "plain s \<longleftrightarrow> CHR ''$'' \<notin> set s \<and> (\<forall>c \<in> set s. \<not> isLineTerminator c)"

definition keyPrefix :: "string \<Rightarrow> string \<Rightarrow> bool" where
  "keyPrefix varName line \<longleftrightarrow> prefix (varName @ ''='') line"

definition setLine :: "string \<Rightarrow> string \<Rightarrow> string \<Rightarrow> string" where
  "setLine varName val line = (if keyPrefix varName line then varName @ ''='' @ val else line)"

fun linesOf :: "string \<Rightarrow> string list" where
  "linesOf [] = [[]]"
| "linesOf (c # cs) =
     (if isLineTerminator c then [] # linesOf cs
      else (case linesOf cs of
              [] \<Rightarrow> [[c]]
            | l # ls \<Rightarrow> (c # l) # ls))"

fun mapLinesFrom :: "(string \<Rightarrow> string) \<Rightarrow> string \<Rightarrow> string \<Rightarrow> string" where
  "mapLinesFrom f cur [] = f cur"
| "mapLinesFrom f cur (c # cs) =
     (if isLineTerminator c then f cur @ c # mapLinesFrom f [] cs
      else mapLinesFrom f (cur @ [c]) cs)"

definition mapLines :: "(string \<Rightarrow> string) \<Rightarrow> string \<Rightarrow> string" where
  "mapLines f s = mapLinesFrom f [] s"

definition hasLine :: "string \<Rightarrow> string \<Rightarrow> bool" where
  "hasLine varName content \<longleftrightarrow> (\<exists>l \<in> set (linesOf content). keyPrefix varName l)"

definition noLT :: "string \<Rightarrow> bool" where
  "noLT s \<longleftrightarrow> (\<forall>c \<in> set s. \<not> isLineTerminator c)"

definition keyName :: "string \<Rightarrow> bool" where
  "keyName v \<longleftrightarrow> noLT v \<and> CHR ''$'' \<notin> set v \<and> CHR ''='' \<notin> set v"

text \<open>The upsert of a variable whose name is literal text, and a list of them in order.\<close>

definition upsertLine :: "string \<Rightarrow> string \<Rightarrow> string \<Rightarrow> string" where
  "upsertLine varName val content = upsertWith (lineRegex varName) varName val content"

definition upsertAll :: "(string \<times> string) list \<Rightarrow> string \<Rightarrow> string" where
  "upsertAll kvs content =
     foldl (\<lambda>content (varName, val). upsertLine varName val content) content kvs"

definition setAll :: "(string \<times> string) list \<Rightarrow> string \<Rightarrow> string" where
  "setAll kvs line = foldl (\<lambda>line (varName, val). setLine varName val line) line kvs"

text \<open>The rendering of a template when every port variable is literal text.\<close>

definition renderLiteral :: "(string \<times> jsnum) list \<Rightarrow> string \<Rightarrow> string \<Rightarrow> int \<Rightarrow> int \<Rightarrow> string" where
  "renderLiteral pm template worktreeName worktreeIndex portOffset =
     foldl (\<lambda>text (portVar, basePort).
              replaceAll (literal (''{{'' @ portVar @ ''}}''))
                (toString (numPlus basePort portOffset)) text)
       (replaceAll (literal ''{{WORKTREE_INDEX}}'') (intToString worktreeIndex)
          (replaceAll (literal ''{{WORKTREE_NAME}}'') worktreeName template))
       pm"

section \<open>Runs as batches of upserts\<close>

text \<open>
  A run that only upserts, seen as a list of batches: each batch names a file and the
  pairs of variable and value upserted into it, in order. \<open>upsertFile\<close> is the frame that
  \<open>updateEnvVars\<close>, \<open>updatePortVariables\<close> and \<open>updateContainerNames\<close> share: create
  the file when the path does not exist, read it, upsert, write.
\<close>

definition fileContent :: "filesystem \<Rightarrow> string \<Rightarrow> string" where
  "fileContent fs p = (case fs p of Some (File c) \<Rightarrow> c | _ \<Rightarrow> [])"

text \<open>A path at which a file can be read or created: a regular file, or nothing, with no
  regular file on the way to it.\<close>

definition writable :: "filesystem \<Rightarrow> string \<Rightarrow> bool" where
  "writable fs p \<longleftrightarrow>
     isFile fs p \<or> (fs p = None \<and> \<not> (\<exists>a \<in> set (ancestors p). isFile fs a))"

definition envVarPairs :: "Config \<Rightarrow> int \<Rightarrow> string list \<Rightarrow> (string \<times> string) list" where
  "envVarPairs cfg portOffset vars =
     concat (map (\<lambda>varName.
                    case getProperty (portMappings cfg) varName of
                      Own basePort \<Rightarrow>
                        if truthy basePort
                        then [(varName, toString (numPlus basePort portOffset))] else []
                    | _ \<Rightarrow> [])
               vars)"

definition upsertFile :: "string \<Rightarrow> (string \<times> string) list \<Rightarrow> filesystem \<Rightarrow> outcome" where
  "upsertFile p kvs fs =
     attempt fs (if pathExists fs p then Ok fs else ensureFile fs p) (\<lambda>fs1.
     attempt fs1 (readFile fs1 p) (\<lambda>content.
     attempt fs1 (writeFile fs1 p (upsertAll kvs content)) Done))"

fun runBatches :: "(string \<times> (string \<times> string) list) list \<Rightarrow> filesystem \<Rightarrow> outcome" where
  "runBatches [] fs = Done fs"
| "runBatches (b # bs) fs =
     (case upsertFile (fst b) (snd b) fs of
        Done fs' \<Rightarrow> runBatches bs fs'
      | other \<Rightarrow> other)"

definition pairsFor :: "string \<Rightarrow> (string \<times> (string \<times> string) list) list \<Rightarrow> (string \<times> string) list"
  where
  "pairsFor p bs = concat (map snd (filter (\<lambda>b. fst b = p) bs))"

definition ruleBatch :: "Config \<Rightarrow> string \<Rightarrow> int \<Rightarrow> FileUpdate \<Rightarrow> string \<times> (string \<times> string) list"
  where
  "ruleBatch cfg dir portOffset update =
     (pathJoin dir (filePath update),
      envVarPairs cfg portOffset (map trim (splitOn CHR '','' (spec update))))"

definition tableBatches ::
  "Config \<Rightarrow> string \<Rightarrow> string \<Rightarrow> int \<Rightarrow> int \<Rightarrow> (string \<times> (string \<times> string) list) list" where
  "tableBatches cfg name dir idx portOffset =
     (if portMappings cfg \<noteq> []
      then [(pathJoin dir ''.env'',
             map (\<lambda>(varName, basePort). (varName, toString (numPlus basePort portOffset)))
               (portMappings cfg))]
      else []) @
     (if containerNames cfg \<noteq> []
      then [(pathJoin dir ''.env'',
             map (\<lambda>(varName, template).
                    (varName, renderLiteral (portMappings cfg) template name idx 0))
               (containerNames cfg))]
      else [])"

text \<open>The batches of one run of steps 3 to 5 whose rules are all \<open>env_vars\<close> rules.\<close>

definition runBatchesOf ::
  "Config \<Rightarrow> string \<Rightarrow> string \<Rightarrow> int \<Rightarrow> (string \<times> (string \<times> string) list) list" where
  "runBatchesOf cfg name dir idx =
     map (ruleBatch cfg dir (idx * portOffsetIncrement cfg)) (fileUpdates cfg) @
     tableBatches cfg name dir idx (idx * portOffsetIncrement cfg)"

section \<open>Rendering, in the words of the specification\<close>

text \<open>
  The specification's \<open>render\<close>: first every occurrence of the worktree-name placeholder is
  replaced with the name, then every occurrence of the worktree-index placeholder with the
  index in decimal, then, for each port-mapping variable, every occurrence of its placeholder
  with base port plus offset in decimal. \<open>replaceEvery\<close> replaces the occurrences of a text
  from left to right, as plain text.
\<close>

fun replaceEvery :: "string \<Rightarrow> string \<Rightarrow> string \<Rightarrow> nat \<Rightarrow> string" where
  "replaceEvery placeholder new [] skip = []"
| "replaceEvery placeholder new (c # cs) skip =
     (if 0 < skip then replaceEvery placeholder new cs (skip - 1)
      else if prefix placeholder (c # cs)
      then new @ replaceEvery placeholder new cs (length placeholder - 1)
      else c # replaceEvery placeholder new cs 0)"

definition renderSpec :: "string \<Rightarrow> string \<Rightarrow> int \<Rightarrow> int \<Rightarrow> (string \<times> jsnum) list \<Rightarrow> string" where
  "renderSpec template worktreeName worktreeIndex portOffset pm =
     foldl (\<lambda>text (portVar, basePort).
              replaceEvery (''{{'' @ portVar @ ''}}'') (toString (numPlus basePort portOffset)) text 0)
       (replaceEvery ''{{WORKTREE_INDEX}}'' (intToString worktreeIndex)
          (replaceEvery ''{{WORKTREE_NAME}}'' worktreeName template 0) 0)
       pm"

section \<open>Example inputs\<close>

text \<open>Does \<open>new RegExp(searchPattern, 'g')\<close> throw.\<close>

definition notCompiling :: "string option \<Rightarrow> bool" where
  "notCompiling pat \<longleftrightarrow>
     (case RegExp (case pat of None \<Rightarrow> [] | Some p \<Rightarrow> p) of
        RegexSyntaxError \<Rightarrow> True | _ \<Rightarrow> False)"

definition badBatch :: "FileUpdate list" where
  "badBatch =
     [\<lparr>filePath = ''a.txt'', updateType = ''replace'', spec = ''x'',
       searchPattern = None, replacement = None\<rparr>,
      \<lparr>filePath = ''b.txt'', updateType = ''append'', spec = ''hello'',
       searchPattern = None, replacement = None\<rparr>]"

definition badRegexBatch :: "FileUpdate list" where
  "badRegexBatch =
     [\<lparr>filePath = ''a.txt'', updateType = ''replace'', spec = ''y'',
       searchPattern = Some ''*x'', replacement = Some ''y''\<rparr>,
      \<lparr>filePath = ''b.txt'', updateType = ''append'', spec = ''hello'',
       searchPattern = None, replacement = None\<rparr>]"

text \<open>The worktree directory \<open>/w\<close>, empty, and with the file \<open>a.txt\<close>.\<close>

definition emptyWorktree :: filesystem where
  "emptyWorktree = [''/w'' \<mapsto> Dir]"

definition oneFile :: filesystem where
  "oneFile = [''/w'' \<mapsto> Dir, ''/w/a.txt'' \<mapsto> File ''old'']"

definition indexOne :: resolver where
  "indexOne worktreeName = Inr 1"

definition indexTwo :: resolver where
  "indexTwo worktreeName = Inr 2"

definition indexFive :: resolver where
  "indexFive worktreeName = Inr 5"




definition upsertExample :: Config where
  "upsertExample = loadDefaultConfig\<lparr>portMappings := [(''A'', Num 100)]\<rparr>"


definition containerExample :: Config where
  "containerExample =
     loadDefaultConfig\<lparr>portMappings := [(''API_PORT'', Num 3000)],
       containerNames := [(''DB_CONTAINER'', ''myapp-{{WORKTREE_NAME}}-db''),
                          (''API_CONTAINER'', ''api-{{WORKTREE_INDEX}}-{{API_PORT}}'')]\<rparr>"

text \<open>A container-name template with \<open>$$\<close>, and a file that has a line for the variable.\<close>

definition dollarContainerExample :: Config where
  "dollarContainerExample =
     loadDefaultConfig\<lparr>containerNames := [(''C'', ''app$$-{{WORKTREE_NAME}}'')]\<rparr>"

definition dollarContainerFiles :: filesystem where
  "dollarContainerFiles = [''/w'' \<mapsto> Dir, ''/w/.env'' \<mapsto> File ''C=old'']"

definition envVarsExample :: Config where
  "envVarsExample =
     loadDefaultConfig\<lparr>portMappings := [(''API_PORT'', Num 3000), (''WEB_PORT'', Num 8080)],
       fileUpdates := [\<lparr>filePath = ''config/.env.local'', updateType = ''env_vars'',
                        spec = ''API_PORT,WEB_PORT'', searchPattern = None,
                        replacement = None\<rparr>]\<rparr>"

definition envVarsExampleFiles :: filesystem where
  "envVarsExampleFiles =
     [''/w'' \<mapsto> Dir,
      ''/w/config'' \<mapsto> Dir,
      ''/w/config/.env.local'' \<mapsto> File ([LF] @ ''API_PORT=3020'' @ [LF] @ ''WEB_PORT=8100''),
      ''/w/.env'' \<mapsto> File ([LF] @ ''API_PORT=3020'' @ [LF] @ ''WEB_PORT=8100'')]"

definition appendExample :: Config where
  "appendExample =
     loadDefaultConfig\<lparr>fileUpdates :=
       [\<lparr>filePath = ''notes.txt'', updateType = ''append'', spec = ''for {{WORKTREE_NAME}}'',
         searchPattern = None, replacement = None\<rparr>]\<rparr>"

definition replaceExample :: Config where
  "replaceExample =
     loadDefaultConfig\<lparr>fileUpdates :=
       [\<lparr>filePath = ''compose.yml'', updateType = ''replace'',
         spec = ''name: myapp-{{WORKTREE_NAME}}'', searchPattern = Some ''name: myapp'',
         replacement = Some ''name: myapp-{{WORKTREE_NAME}}''\<rparr>]\<rparr>"

text \<open>An \<open>append\<close> rule and an \<open>env_vars\<close> rule for files in a directory that is not there.\<close>

definition nestedAppend :: FileUpdate where
  "nestedAppend =
     \<lparr>filePath = ''logs/notes.txt'', updateType = ''append'', spec = ''hello'',
      searchPattern = None, replacement = None\<rparr>"

definition nestedEnvVars :: FileUpdate where
  "nestedEnvVars =
     \<lparr>filePath = ''logs/.env'', updateType = ''env_vars'', spec = ''A'',
      searchPattern = None, replacement = None\<rparr>"

definition templateExample :: Config where
  "templateExample =
     loadDefaultConfig\<lparr>portOffsetIncrement := 100, portMappings := [(''API_PORT'', Num 3000)]\<rparr>"

text \<open>A port mapping whose name opens a group that is never closed.\<close>

definition unclosedPortExample :: Config where
  "unclosedPortExample = loadDefaultConfig\<lparr>portMappings := [(''A('', Num 1)]\<rparr>"

section \<open>Properties\<close>

subsection \<open>Splitting and parsing\<close>













subsection \<open>The batch of file-update rules\<close>

lemma processFileUpdates_append:
  "processFileUpdates cfg git (us @ vs) n d i off fs =
     (case processFileUpdates cfg git us n d i off fs of
        Done fs1 \<Rightarrow> processFileUpdates cfg git vs n d i off fs1
      | other \<Rightarrow> other)"
  by (induction us arbitrary: fs) (auto split: outcome.splits)

subsection \<open>Upserts, line by line\<close>

lemma nameChar_facts:
  "nameChar c \<Longrightarrow> \<not> isLineTerminator c \<and> c \<noteq> CHR ''='' \<and> c \<noteq> CHR ''$''"
  by (auto simp: nameChar_def isLineTerminator_def LF_def CR_def Let_def)

lemma validName_facts:
  assumes "validName v"
  shows "v \<noteq> []" and "CHR ''='' \<notin> set v" and "CHR ''$'' \<notin> set v"
    and "\<forall>c \<in> set v. \<not> isLineTerminator c"
  using assms nameChar_facts by (auto simp: validName_def)

lemma eq_not_lt: "\<not> isLineTerminator CHR ''=''"
  by (simp add: isLineTerminator_def LF_def CR_def)

lemma getSubstitution_no_dollar:
  "CHR ''$'' \<notin> set repl \<Longrightarrow> getSubstitution matched pre after repl = repl"
  by (induction matched pre after repl rule: getSubstitution.induct) auto

lemma linesOf_nonempty: "linesOf s \<noteq> []"
  by (induction s) (auto split: list.splits)

lemma replaceFrom_skip:
  "replaceFrom m repl pre (xs @ ys) (length xs) = replaceFrom m repl (pre @ xs) ys 0"
  by (induction xs arbitrary: pre) auto

lemma mapLinesFrom_line:
  "\<forall>c \<in> set l. \<not> isLineTerminator c \<Longrightarrow>
   mapLinesFrom f cur (l @ r) = mapLinesFrom f (cur @ l) r"
  by (induction l arbitrary: cur) auto

lemma linesOf_line:
  "\<forall>c \<in> set l. \<not> isLineTerminator c \<Longrightarrow>
   linesOf (l @ r) = (l @ hd (linesOf r)) # tl (linesOf r)"
  by (induction l) (auto simp: linesOf_nonempty split: list.splits)

lemma first_line_cases:
  obtains (last) "\<forall>c \<in> set s. \<not> isLineTerminator c"
  | (more) l t r where "s = l @ t # r" "\<forall>c \<in> set l. \<not> isLineTerminator c" "isLineTerminator t"
proof (cases "\<forall>c \<in> set s. \<not> isLineTerminator c")
  case True
  then show ?thesis by (rule last)
next
  case False
  then have "dropWhile (\<lambda>c. \<not> isLineTerminator c) s \<noteq> []"
    by (auto simp: dropWhile_eq_Nil_conv)
  then obtain t r where d: "dropWhile (\<lambda>c. \<not> isLineTerminator c) s = t # r"
    by (cases "dropWhile (\<lambda>c. \<not> isLineTerminator c) s") auto
  then have "isLineTerminator t"
    using hd_dropWhile [of "\<lambda>c. \<not> isLineTerminator c" s] by auto
  moreover have "s = takeWhile (\<lambda>c. \<not> isLineTerminator c) s @ t # r"
    using d takeWhile_dropWhile_id [of "\<lambda>c. \<not> isLineTerminator c" s] by simp
  moreover have "\<forall>c \<in> set (takeWhile (\<lambda>c. \<not> isLineTerminator c) s). \<not> isLineTerminator c"
    by (auto dest: set_takeWhileD)
  ultimately show ?thesis by (rule more [rotated 2])
qed

lemma prefix_line:
  assumes "noLT p" and "noLT l" and "r = [] \<or> isLineTerminator (hd r)"
  shows "prefix p (l @ r) \<longleftrightarrow> prefix p l"
proof
  assume "prefix p (l @ r)"
  then consider "prefix p l" | us where "p = l @ us" "us \<noteq> []" "prefix us r"
    by (cases "prefix p l") (auto simp: prefix_append)
  then show "prefix p l"
  proof cases
    case 1
    then show ?thesis .
  next
    case 2
    then have "r \<noteq> []" and "hd us = hd r"
      by (auto simp: prefix_def)
    then have "isLineTerminator (hd us)" using assms(3) by auto
    moreover have "hd us \<in> set p" using 2 by auto
    ultimately show ?thesis using assms(1) by (auto simp: noLT_def)
  qed
qed (auto simp: prefix_def)

lemma takeWhile_line:
  assumes "noLT l" and "r = [] \<or> isLineTerminator (hd r)"
  shows "takeWhile (\<lambda>c. \<not> isLineTerminator c) (l @ r) = l"
proof -
  have "takeWhile (\<lambda>c. \<not> isLineTerminator c) r = []"
    using assms(2) by (cases r) auto
  then show ?thesis
    using assms(1) by (simp add: noLT_def takeWhile_append)
qed

lemma lineRegex_inside:
  "pre \<noteq> [] \<Longrightarrow> \<not> isLineTerminator (last pre) \<Longrightarrow> lineRegex v pre rest = None"
  by (simp add: lineRegex_def)

lemma lineRegex_start:
  assumes "noLT v" and "pre = [] \<or> isLineTerminator (last pre)"
    and "noLT l" and "r = [] \<or> isLineTerminator (hd r)"
  shows "lineRegex v pre (l @ r) = (if keyPrefix v l then Some (length l) else None)"
proof -
  have "noLT (v @ ''='')"
    using assms(1) eq_not_lt by (simp add: noLT_def)
  then have "prefix (v @ ''='') (l @ r) \<longleftrightarrow> prefix (v @ ''='') l"
    using assms(3,4) by (rule prefix_line)
  then show ?thesis
    using assms(2) takeWhile_line [OF assms(3,4)]
    by (simp add: lineRegex_def keyPrefix_def)
qed

lemma replaceFrom_inside:
  "noLT l \<Longrightarrow> pre \<noteq> [] \<Longrightarrow> \<not> isLineTerminator (last pre) \<Longrightarrow>
   replaceFrom (lineRegex v) repl pre (l @ r) 0 = l @ replaceFrom (lineRegex v) repl (pre @ l) r 0"
proof (induction l arbitrary: pre)
  case Nil
  then show ?case by simp
next
  case (Cons c l)
  have "replaceFrom (lineRegex v) repl pre ((c # l) @ r) 0 =
        c # replaceFrom (lineRegex v) repl (pre @ [c]) (l @ r) 0"
    using Cons.prems by (simp add: lineRegex_inside)
  also have "\<dots> = c # l @ replaceFrom (lineRegex v) repl ((pre @ [c]) @ l) r 0"
    using Cons.prems Cons.IH [of "pre @ [c]"] by (simp add: noLT_def)
  finally show ?case by simp
qed

lemma replaceFrom_at_terminator:
  assumes "noLT v" and "r = [] \<or> isLineTerminator (hd r)"
  shows "replaceFrom (lineRegex v) repl pre r 0 =
         (case r of [] \<Rightarrow> [] | t # r' \<Rightarrow> t # replaceFrom (lineRegex v) repl (pre @ [t]) r' 0)"
proof -
  have "\<not> prefix (v @ ''='') r"
  proof
    assume p: "prefix (v @ ''='') r"
    then have "r \<noteq> []" by auto
    then have "isLineTerminator (hd r)" using assms(2) by simp
    moreover have "hd r = hd (v @ ''='')" using p by (cases v) (auto simp: prefix_def)
    moreover have "hd (v @ ''='') \<in> set (v @ ''='')" by (cases v) auto
    ultimately show False using assms(1) eq_not_lt by (auto simp: noLT_def)
  qed
  then have "lineRegex v pre r = None" by (simp add: lineRegex_def)
  then show ?thesis by (cases r) auto
qed

lemma replaceFrom_line:
  assumes "noLT v" and "CHR ''$'' \<notin> set repl"
    and "pre = [] \<or> isLineTerminator (last pre)"
    and "noLT l" and "r = [] \<or> isLineTerminator (hd r)"
  shows "replaceFrom (lineRegex v) repl pre (l @ r) 0 =
         (if keyPrefix v l then repl else l) @
         (case r of [] \<Rightarrow> [] | t # r' \<Rightarrow> t # replaceFrom (lineRegex v) repl (pre @ l @ [t]) r' 0)"
proof (cases l)
  case Nil
  have "\<not> keyPrefix v []" by (simp add: keyPrefix_def)
  then show ?thesis
    using Nil replaceFrom_at_terminator [OF assms(1,5), of repl pre] by (cases r) simp_all
next
  case (Cons c l')
  have m: "lineRegex v pre (c # l' @ r) = (if keyPrefix v l then Some (length l) else None)"
    using lineRegex_start [OF assms(1,3,4,5)] Cons by simp
  have tail: "replaceFrom (lineRegex v) repl (pre @ l) r 0 =
         (case r of [] \<Rightarrow> [] | t # r' \<Rightarrow> t # replaceFrom (lineRegex v) repl (pre @ l @ [t]) r' 0)"
    using replaceFrom_at_terminator [OF assms(1,5), of repl "pre @ l"] by (cases r) simp_all
  show ?thesis
  proof (cases "keyPrefix v l")
    case True
    have "replaceFrom (lineRegex v) repl pre (c # l' @ r) 0 =
          repl @ replaceFrom (lineRegex v) repl (pre @ [c]) (l' @ r) (length l')"
      using m True Cons assms(2) by (simp add: getSubstitution_no_dollar)
    also have "\<dots> = repl @ replaceFrom (lineRegex v) repl (pre @ l) r 0"
      using Cons by (simp add: replaceFrom_skip)
    finally show ?thesis using True Cons tail by simp
  next
    case False
    have "replaceFrom (lineRegex v) repl pre (c # l' @ r) 0 =
          c # replaceFrom (lineRegex v) repl (pre @ [c]) (l' @ r) 0"
      using m False by simp
    also have "\<dots> = c # l' @ replaceFrom (lineRegex v) repl ((pre @ [c]) @ l') r 0"
      using assms(4) Cons replaceFrom_inside [of l' "pre @ [c]" v repl r]
      by (simp add: noLT_def)
    finally show ?thesis using False Cons tail by simp
  qed
qed

lemma replaceFrom_mapLines:
  assumes "noLT v" and "CHR ''$'' \<notin> set repl"
  shows "pre = [] \<or> isLineTerminator (last pre) \<Longrightarrow>
         replaceFrom (lineRegex v) repl pre s 0 =
         mapLines (\<lambda>l. if keyPrefix v l then repl else l) s"
proof (induction s arbitrary: pre rule: length_induct)
  case (1 s)
  let ?f = "\<lambda>l. if keyPrefix v l then repl else l"
  show ?case
  proof (cases s rule: first_line_cases)
    case last
    then have "noLT s" by (simp add: noLT_def)
    then have "replaceFrom (lineRegex v) repl pre (s @ []) 0 = ?f s"
      using replaceFrom_line [OF assms "1.prems", of s "[]"] by simp
    moreover have "mapLines ?f s = ?f s"
      using mapLinesFrom_line [of s ?f "[]" "[]"] last by (simp add: mapLines_def)
    ultimately show ?thesis by simp
  next
    case (more l t r)
    then have nl: "noLT l" by (simp add: noLT_def)
    have "replaceFrom (lineRegex v) repl pre (l @ t # r) 0 =
          ?f l @ t # replaceFrom (lineRegex v) repl (pre @ l @ [t]) r 0"
      using replaceFrom_line [OF assms "1.prems" nl, of "t # r"] more(3) by simp
    moreover have "replaceFrom (lineRegex v) repl (pre @ l @ [t]) r 0 = mapLines ?f r"
      using "1.IH" more by simp
    moreover have "mapLines ?f (l @ t # r) = ?f l @ t # mapLines ?f r"
      using mapLinesFrom_line [of l ?f "[]" "t # r"] more by (simp add: mapLines_def)
    ultimately show ?thesis using more(1) by simp
  qed
qed

lemma replaceAll_lineRegex:
  assumes "noLT v" and "CHR ''$'' \<notin> set val" and "CHR ''$'' \<notin> set v"
  shows "replaceAll (lineRegex v) (v @ ''='' @ val) content = mapLines (setLine v val) content"
proof -
  have "CHR ''$'' \<notin> set (v @ ''='' @ val)" using assms by simp
  then have "replaceFrom (lineRegex v) (v @ ''='' @ val) [] content 0 =
     mapLines (\<lambda>l. if keyPrefix v l then v @ ''='' @ val else l) content"
    using replaceFrom_mapLines [OF assms(1), of "v @ ''='' @ val" "[]" content] by blast
  moreover have "(\<lambda>l. if keyPrefix v l then v @ ''='' @ val else l) = setLine v val"
    by (auto simp: setLine_def)
  ultimately show ?thesis by (simp add: replaceAll_def)
qed

lemma lines_induct [case_names last more]:
  assumes "\<And>s. noLT s \<Longrightarrow> P s"
    and "\<And>l t r. noLT l \<Longrightarrow> isLineTerminator t \<Longrightarrow> P r \<Longrightarrow> P (l @ t # r)"
  shows "P s"
proof (induction s rule: length_induct)
  case (1 s)
  show ?case
  proof (cases s rule: first_line_cases)
    case last
    then show ?thesis using assms(1) by (simp add: noLT_def)
  next
    case (more l t r)
    then show ?thesis using assms(2) [of l t r] "1.IH" by (simp add: noLT_def)
  qed
qed

lemma mapLines_last: "noLT l \<Longrightarrow> mapLines f l = f l"
  using mapLinesFrom_line [of l f "[]" "[]"] by (simp add: mapLines_def noLT_def)

lemma mapLines_more:
  "noLT l \<Longrightarrow> isLineTerminator t \<Longrightarrow> mapLines f (l @ t # r) = f l @ t # mapLines f r"
  using mapLinesFrom_line [of l f "[]" "t # r"] by (simp add: mapLines_def noLT_def)

lemma linesOf_last: "noLT l \<Longrightarrow> linesOf l = [l]"
  using linesOf_line [of l "[]"] by (simp add: noLT_def)

lemma linesOf_more:
  "noLT l \<Longrightarrow> isLineTerminator t \<Longrightarrow> linesOf (l @ t # r) = l # linesOf r"
  using linesOf_line [of l "t # r"] by (simp add: noLT_def)

lemma linesOf_mapLines:
  "(\<And>l. noLT l \<Longrightarrow> noLT (f l)) \<Longrightarrow> linesOf (mapLines f s) = map f (linesOf s)"
  by (induction s rule: lines_induct)
    (auto simp: linesOf_last linesOf_more mapLines_last mapLines_more)

lemma linesOf_append_line:
  "noLT x \<Longrightarrow> linesOf (c @ LF # x) = linesOf c @ [x]"
proof (induction c rule: lines_induct)
  case (last s)
  have "isLineTerminator LF" by (simp add: isLineTerminator_def)
  then show ?case using last linesOf_more [of s LF x] by (simp add: linesOf_last)
next
  case (more l t r)
  then show ?case using linesOf_more [of l t "r @ LF # x"] by (simp add: linesOf_more)
qed

lemma mapLines_id:
  "(\<And>l. l \<in> set (linesOf s) \<Longrightarrow> f l = l) \<Longrightarrow> mapLines f s = s"
  by (induction s rule: lines_induct)
    (auto simp: linesOf_last linesOf_more mapLines_last mapLines_more)

lemma mapLines_comp:
  "(\<And>l. noLT l \<Longrightarrow> noLT (g l)) \<Longrightarrow> mapLines f (mapLines g s) = mapLines (\<lambda>l. f (g l)) s"
  by (induction s rule: lines_induct) (auto simp: mapLines_last mapLines_more)

lemma testFrom_inside:
  "noLT l \<Longrightarrow> pre \<noteq> [] \<Longrightarrow> \<not> isLineTerminator (last pre) \<Longrightarrow>
   testFrom (lineRegex v) pre (l @ r) = testFrom (lineRegex v) (pre @ l) r"
proof (induction l arbitrary: pre)
  case Nil
  then show ?case by simp
next
  case (Cons c l)
  have "testFrom (lineRegex v) pre ((c # l) @ r) = testFrom (lineRegex v) (pre @ [c]) (l @ r)"
    using Cons.prems by (simp add: lineRegex_inside)
  also have "\<dots> = testFrom (lineRegex v) ((pre @ [c]) @ l) r"
    using Cons.prems Cons.IH [of "pre @ [c]"] by (simp add: noLT_def)
  finally show ?case by simp
qed

lemma lineRegex_at_terminator:
  assumes "noLT v" and "r = [] \<or> isLineTerminator (hd r)"
  shows "lineRegex v pre r = None"
proof -
  have "\<not> prefix (v @ ''='') r"
  proof
    assume p: "prefix (v @ ''='') r"
    then have "r \<noteq> []" by auto
    then have "isLineTerminator (hd r)" using assms(2) by simp
    moreover have "hd r = hd (v @ ''='')" using p by (cases v) (auto simp: prefix_def)
    moreover have "hd (v @ ''='') \<in> set (v @ ''='')" by (cases v) auto
    ultimately show False using assms(1) eq_not_lt by (auto simp: noLT_def)
  qed
  then show ?thesis by (simp add: lineRegex_def)
qed

lemma testFrom_line:
  assumes "noLT v" and "pre = [] \<or> isLineTerminator (last pre)"
    and "noLT l" and "r = [] \<or> isLineTerminator (hd r)"
  shows "testFrom (lineRegex v) pre (l @ r) \<longleftrightarrow>
         keyPrefix v l \<or>
         (case r of [] \<Rightarrow> False | t # r' \<Rightarrow> testFrom (lineRegex v) (pre @ l @ [t]) r')"
proof -
  have tail: "testFrom (lineRegex v) p r \<longleftrightarrow>
       (case r of [] \<Rightarrow> False | t # r' \<Rightarrow> testFrom (lineRegex v) (p @ [t]) r')" for p
    using lineRegex_at_terminator [OF assms(1,4), of p] by (cases r) simp_all
  show ?thesis
  proof (cases l)
    case Nil
    have "\<not> keyPrefix v []" by (simp add: keyPrefix_def)
    then show ?thesis using Nil tail [of pre] by (cases r) simp_all
  next
    case (Cons c l')
    have m: "lineRegex v pre (c # l' @ r) = (if keyPrefix v l then Some (length l) else None)"
      using lineRegex_start [OF assms(1,2,3,4)] Cons by simp
    have "testFrom (lineRegex v) (pre @ [c]) (l' @ r) = testFrom (lineRegex v) ((pre @ [c]) @ l') r"
      using assms(3) Cons testFrom_inside [of l' "pre @ [c]" v r] by (simp add: noLT_def)
    then show ?thesis
      using m Cons tail [of "pre @ l"] by (cases r) auto
  qed
qed

lemma testFrom_hasLine:
  assumes "noLT v"
  shows "pre = [] \<or> isLineTerminator (last pre) \<Longrightarrow>
         testFrom (lineRegex v) pre s \<longleftrightarrow> hasLine v s"
proof (induction s arbitrary: pre rule: lines_induct)
  case (last s)
  then show ?case
    using testFrom_line [OF assms last(2) last(1), of "[]"]
    by (simp add: hasLine_def linesOf_last)
next
  case (more l t r)
  have "testFrom (lineRegex v) (pre @ l @ [t]) r \<longleftrightarrow> hasLine v r"
    using more(3) [of "pre @ l @ [t]"] more(2) by simp
  then show ?case
    using testFrom_line [OF assms more(4) more(1), of "t # r"] more(2)
    by (simp add: hasLine_def linesOf_more more(1))
qed

lemma test_lineRegex: "noLT v \<Longrightarrow> test (lineRegex v) s \<longleftrightarrow> hasLine v s"
  using testFrom_hasLine [of v "[]" s] by (simp add: test_def)

lemma validName_keyName: "validName v \<Longrightarrow> keyName v"
  using validName_facts [of v] by (simp add: keyName_def noLT_def)

lemma upsert_lines:
  assumes "keyName v" and "CHR ''$'' \<notin> set val"
  shows "upsertLine v val c =
         (if hasLine v c then mapLines (setLine v val) c else c @ LF # v @ ''='' @ val)"
  using assms replaceAll_lineRegex [of v val c]
  by (simp add: upsertLine_def upsertWith_def test_lineRegex keyName_def)

lemma isDigit_digitChar: "d < 10 \<Longrightarrow> isDigit (digitChar d)"
proof -
  assume "d < 10"
  then have "d \<in> {0, 1, 2, 3, 4, 5, 6, 7, 8, 9}" by auto
  then show ?thesis by (auto simp: digitChar_def isDigit_def)
qed

lemma decimal_digits: "\<forall>c \<in> set (decimal n). isDigit c"
proof (induction n rule: decimal.induct)
  case (1 n)
  show ?case
  proof (cases "n < 10")
    case True
    then show ?thesis using isDigit_digitChar [of n] by (subst decimal.simps) simp
  next
    case False
    have "isDigit (digitChar (n mod 10))" by (rule isDigit_digitChar) simp
    then show ?thesis using False 1 by (subst decimal.simps) simp
  qed
qed

lemma isDigit_plain: "isDigit c \<Longrightarrow> c \<noteq> CHR ''$'' \<and> \<not> isLineTerminator c"
  by (auto simp: isDigit_def isLineTerminator_def LF_def CR_def)

lemma decimal_plain: "plain (decimal n)"
  using decimal_digits [of n] isDigit_plain by (auto simp: plain_def)

lemma toString_plain: "plain (toString x)"
proof (cases x)
  case (Num b)
  then show ?thesis
    using decimal_plain [of "nat b"] decimal_plain [of "nat (- b)"]
    by (auto simp: intToString_def plain_def isLineTerminator_def LF_def CR_def)
next
  case NaN
  then show ?thesis by (simp add: plain_def isLineTerminator_def LF_def CR_def)
qed

lemma keyPrefix_other:
  assumes "CHR ''='' \<notin> set k" and "CHR ''='' \<notin> set v" and "keyPrefix k (v @ ''='' @ x)"
  shows "k = v"
proof -
  obtain zs where "v @ ''='' @ x = (k @ ''='') @ zs"
    using assms(3) by (auto simp: keyPrefix_def prefix_def)
  then have "takeWhile (\<lambda>c. c \<noteq> CHR ''='') (v @ CHR ''='' # x) =
             takeWhile (\<lambda>c. c \<noteq> CHR ''='') (k @ CHR ''='' # zs)"
    by simp
  moreover have "takeWhile (\<lambda>c. c \<noteq> CHR ''='') k = k" "takeWhile (\<lambda>c. c \<noteq> CHR ''='') v = v"
    using assms(1,2) by (auto simp: takeWhile_eq_all_conv)
  ultimately show ?thesis
    using assms(1,2) by (simp add: takeWhile_tail)
qed

lemma keyPrefix_self: "keyPrefix v (v @ ''='' @ x)"
  by (simp add: keyPrefix_def)

lemma setLine_noLT: "noLT v \<Longrightarrow> noLT x \<Longrightarrow> noLT l \<Longrightarrow> noLT (setLine v x l)"
  using eq_not_lt by (auto simp: setLine_def noLT_def)

lemma plain_noLT: "plain x \<Longrightarrow> noLT x"
  by (simp add: plain_def noLT_def)

lemma linesOf_upsert:
  assumes "keyName k" and "plain y"
  shows "linesOf (upsertLine k y c) =
         (if hasLine k c then map (setLine k y) (linesOf c) else linesOf c @ [k @ ''='' @ y])"
proof -
  have n: "noLT k" "noLT y" using assms by (simp_all add: keyName_def plain_noLT)
  have "noLT (k @ ''='' @ y)" using n eq_not_lt by (auto simp: noLT_def)
  then have "linesOf (c @ LF # k @ ''='' @ y) = linesOf c @ [k @ ''='' @ y]"
    by (rule linesOf_append_line)
  moreover have "linesOf (mapLines (setLine k y) c) = map (setLine k y) (linesOf c)"
    by (rule linesOf_mapLines) (rule setLine_noLT [OF n])
  ultimately show ?thesis
    using assms by (simp add: upsert_lines plain_def)
qed

lemma upsert_sets_line:
  assumes "keyName k" and "plain y"
  shows "k @ ''='' @ y \<in> set (linesOf (upsertLine k y c))"
proof (cases "hasLine k c")
  case True
  then obtain l where "l \<in> set (linesOf c)" "keyPrefix k l" by (auto simp: hasLine_def)
  then have "setLine k y l \<in> set (map (setLine k y) (linesOf c))" "setLine k y l = k @ ''='' @ y"
    by (auto simp: setLine_def)
  then show ?thesis using True linesOf_upsert [OF assms, of c] by (simp del: set_map)
next
  case False
  then show ?thesis using linesOf_upsert [OF assms, of c] by simp
qed

lemma upsert_keeps_line:
  assumes "keyName k" and "plain y" and "CHR ''='' \<notin> set v" and "v \<noteq> k"
    and "v @ ''='' @ x \<in> set (linesOf c)"
  shows "v @ ''='' @ x \<in> set (linesOf (upsertLine k y c))"
proof -
  have "\<not> keyPrefix k (v @ ''='' @ x)"
    using keyPrefix_other [of k v x] assms(1,3,4) by (auto simp: keyName_def)
  then have "setLine k y (v @ ''='' @ x) = v @ ''='' @ x" by (simp add: setLine_def)
  then have "v @ ''='' @ x \<in> set (map (setLine k y) (linesOf c))"
    using assms(5) by (metis image_eqI set_map)
  then show ?thesis using linesOf_upsert [OF assms(1,2), of c] assms(5) by simp
qed

lemma upsertAll_snoc: "upsertAll (kvs @ [(k, y)]) c = upsertLine k y (upsertAll kvs c)"
  by (simp add: upsertAll_def)

lemma upsertAll_line:
  assumes "\<forall>(k, y) \<in> set kvs. keyName k \<and> plain y"
    and "distinct (map fst kvs)" and "(v, x) \<in> set kvs"
  shows "v @ ''='' @ x \<in> set (linesOf (upsertAll kvs c))"
  using assms
proof (induction kvs rule: rev_induct)
  case Nil
  then show ?case by simp
next
  case (snoc p kvs)
  obtain k y where p: "p = (k, y)" by (cases p)
  have ky: "keyName k" "plain y" using snoc.prems(1) p by auto
  show ?case
  proof (cases "(v, x) = (k, y)")
    case True
    then show ?thesis using upsert_sets_line [OF ky] p by (simp add: upsertAll_snoc)
  next
    case False
    then have in_kvs: "(v, x) \<in> set kvs" using snoc.prems(3) p by auto
    then have "v \<noteq> k" using snoc.prems(2) p by (auto simp: image_iff)
    moreover have "CHR ''='' \<notin> set v" using snoc.prems(1) in_kvs by (auto simp: keyName_def)
    moreover have "v @ ''='' @ x \<in> set (linesOf (upsertAll kvs c))"
      using snoc.IH snoc.prems in_kvs by auto
    ultimately show ?thesis
      using upsert_keeps_line [OF ky] p by (simp add: upsertAll_snoc)
  qed
qed

lemma upsertAll_Nil: "upsertAll [] c = c"
  by (simp add: upsertAll_def)

lemma upsertAll_Cons: "upsertAll ((k, y) # kvs) c = upsertAll kvs (upsertLine k y c)"
  by (simp add: upsertAll_def)

lemma upsertAll_append: "upsertAll (xs @ ys) c = upsertAll ys (upsertAll xs c)"
  by (simp add: upsertAll_def)

lemma setAll_Nil: "setAll [] l = l"
  by (simp add: setAll_def)

lemma setAll_Cons: "setAll ((k, y) # kvs) l = setAll kvs (setLine k y l)"
  by (simp add: setAll_def)

lemma setAll_snoc: "setAll (kvs @ [(k, y)]) l = setLine k y (setAll kvs l)"
  by (simp add: setAll_def)

lemma keyPrefix_same:
  assumes "CHR ''='' \<notin> set k" and "CHR ''='' \<notin> set k'"
    and "keyPrefix k l" and "keyPrefix k' l"
  shows "k = k'"
proof -
  obtain zs where "l = (k @ ''='') @ zs"
    using assms(3) by (auto simp: keyPrefix_def prefix_def)
  moreover obtain zs' where "l = (k' @ ''='') @ zs'"
    using assms(4) by (auto simp: keyPrefix_def prefix_def)
  ultimately have "takeWhile (\<lambda>c. c \<noteq> CHR ''='') (k @ CHR ''='' # zs) =
             takeWhile (\<lambda>c. c \<noteq> CHR ''='') (k' @ CHR ''='' # zs')"
    by simp
  moreover have "takeWhile (\<lambda>c. c \<noteq> CHR ''='') k = k" "takeWhile (\<lambda>c. c \<noteq> CHR ''='') k' = k'"
    using assms(1,2) by (auto simp: takeWhile_eq_all_conv)
  ultimately show ?thesis
    using assms(1,2) by (simp add: takeWhile_tail)
qed

lemma keyPrefix_setLine:
  assumes "keyName k" and "keyName k'" and "keyPrefix k' l"
  shows "keyPrefix k' (setLine k y l)"
proof (cases "keyPrefix k l")
  case True
  then have "k = k'" using keyPrefix_same [of k k' l] assms by (simp add: keyName_def)
  then show ?thesis using True by (simp add: setLine_def keyPrefix_def)
next
  case False
  then show ?thesis using assms(3) by (simp add: setLine_def)
qed

lemma keyPrefix_setAll:
  "\<forall>(k, y) \<in> set kvs. keyName k \<Longrightarrow> keyName k' \<Longrightarrow> keyPrefix k' l \<Longrightarrow>
   keyPrefix k' (setAll kvs l)"
proof (induction kvs arbitrary: l)
  case Nil
  then show ?case by (simp add: setAll_Nil)
next
  case (Cons p kvs)
  obtain k y where p: "p = (k, y)" by (cases p)
  have "keyPrefix k' (setLine k y l)"
    using keyPrefix_setLine [of k k' l y] Cons.prems p by simp
  then show ?case using Cons p by (simp add: setAll_Cons)
qed

lemma hasLine_upsert:
  assumes "keyName k" and "plain y" and "keyName k'" and "hasLine k' c"
  shows "hasLine k' (upsertLine k y c)"
proof -
  obtain l where l: "l \<in> set (linesOf c)" "keyPrefix k' l"
    using assms(4) by (auto simp: hasLine_def)
  have "keyPrefix k' (setLine k y l)"
    using keyPrefix_setLine [OF assms(1,3) l(2)] .
  then have "\<exists>l' \<in> set (map (setLine k y) (linesOf c)). keyPrefix k' l'"
    using l(1) by auto
  then show ?thesis
    using l linesOf_upsert [OF assms(1,2), of c] by (auto simp: hasLine_def)
qed

lemma hasLine_upsert_self:
  assumes "keyName k" and "plain y"
  shows "hasLine k (upsertLine k y c)"
  using upsert_sets_line [OF assms, of c] keyPrefix_self [of k y] by (auto simp: hasLine_def)

lemma upsertAll_mapLines:
  "\<forall>(k, y) \<in> set kvs. keyName k \<and> plain y \<Longrightarrow> \<forall>(k, y) \<in> set kvs. hasLine k c \<Longrightarrow>
   upsertAll kvs c = mapLines (setAll kvs) c"
proof (induction kvs arbitrary: c)
  case Nil
  have "mapLines (\<lambda>l. l) c = c" by (rule mapLines_id) simp
  then show ?case by (simp add: upsertAll_Nil setAll_def)
next
  case (Cons p kvs)
  obtain k y where p: "p = (k, y)" by (cases p)
  have ky: "keyName k" "plain y" "hasLine k c" using Cons.prems p by auto
  have u: "upsertLine k y c = mapLines (setLine k y) c"
    using ky by (simp add: upsert_lines plain_def)
  have "hasLine k' (upsertLine k y c)" if "(k', y') \<in> set kvs" for k' y'
    using that Cons.prems hasLine_upsert [OF ky(1,2), of k' c] by fastforce
  then have "\<forall>(k', y') \<in> set kvs. hasLine k' (upsertLine k y c)"
    by auto
  then have "upsertAll kvs (upsertLine k y c) = mapLines (setAll kvs) (upsertLine k y c)"
    using Cons.IH Cons.prems(1) by simp
  also have "\<dots> = mapLines (\<lambda>l. setAll kvs (setLine k y l)) c"
    unfolding u
    by (rule mapLines_comp) (rule setLine_noLT, insert ky, simp_all add: keyName_def plain_noLT)
  finally show ?case
    using p by (simp add: upsertAll_Cons setAll_Cons [abs_def])
qed

lemma upsertAll_settled:
  "\<forall>(k, y) \<in> set kvs. keyName k \<and> plain y \<Longrightarrow>
   (\<forall>(k, y) \<in> set kvs. hasLine k (upsertAll kvs c))
   \<and> (\<forall>l \<in> set (linesOf (upsertAll kvs c)). setAll kvs l = l)"
proof (induction kvs rule: rev_induct)
  case Nil
  then show ?case by (simp add: setAll_Nil)
next
  case (snoc p kvs)
  obtain k y where p: "p = (k, y)" by (cases p)
  let ?c = "upsertAll kvs c"
  have ky: "keyName k" "plain y" using snoc.prems p by auto
  have keys: "\<forall>(k, y) \<in> set kvs. keyName k" using snoc.prems by auto
  have IH1: "\<forall>(k, y) \<in> set kvs. hasLine k ?c"
    and IH2: "\<forall>l \<in> set (linesOf ?c). setAll kvs l = l"
    using snoc.IH snoc.prems by auto
  have "hasLine k' (upsertLine k y ?c)" if "(k', y') \<in> set kvs" for k' y'
    using that IH1 keys hasLine_upsert [OF ky, of k' ?c] by fastforce
  then have 1: "\<forall>(k', y') \<in> set (kvs @ [p]). hasLine k' (upsertLine k y ?c)"
    using hasLine_upsert_self [OF ky, of ?c] p by auto
  have 2: "setLine k y (setAll kvs l) = l" if lin: "l \<in> set (linesOf (upsertLine k y ?c))" for l
  proof -
    consider l0 where "l0 \<in> set (linesOf ?c)" "l = setLine k y l0"
      | "\<not> hasLine k ?c" "l \<in> set (linesOf ?c)"
      | "l = k @ ''='' @ y"
      using lin linesOf_upsert [OF ky, of ?c] by (auto split: if_splits)
    then show ?thesis
    proof cases
      case 1
      show ?thesis
      proof (cases "keyPrefix k l0")
        case True
        then have l: "l = k @ ''='' @ y" using 1 by (simp add: setLine_def)
        have "keyPrefix k (setAll kvs l)"
          using keyPrefix_setAll [OF keys ky(1)] keyPrefix_self [of k y] l by simp
        then show ?thesis using l by (simp add: setLine_def)
      next
        case False
        then have "l = l0" using 1 by (simp add: setLine_def)
        then show ?thesis using 1 IH2 False by (simp add: setLine_def)
      qed
    next
      case 2
      then have "\<not> keyPrefix k l" by (auto simp: hasLine_def)
      then show ?thesis using 2 IH2 by (simp add: setLine_def)
    next
      case 3
      have "keyPrefix k (setAll kvs l)"
        using keyPrefix_setAll [OF keys ky(1)] keyPrefix_self [of k y] 3 by simp
      then show ?thesis using 3 by (simp add: setLine_def)
    qed
  qed
  show ?case
    using 1 2 p by (simp add: upsertAll_snoc setAll_snoc)
qed

lemma upsertAll_idempotent:
  assumes "\<forall>(k, y) \<in> set kvs. keyName k \<and> plain y"
  shows "upsertAll kvs (upsertAll kvs c) = upsertAll kvs c"
proof -
  have "upsertAll kvs (upsertAll kvs c) = mapLines (setAll kvs) (upsertAll kvs c)"
    using upsertAll_mapLines [OF assms] upsertAll_settled [OF assms, of c] by blast
  also have "\<dots> = upsertAll kvs c"
    using upsertAll_settled [OF assms, of c] by (intro mapLines_id) blast
  finally show ?thesis .
qed


subsection \<open>Loops over identifier names\<close>

lemma nameChar_literal: "nameChar c \<Longrightarrow> \<not> syntaxChar c"
  by (auto simp: nameChar_def syntaxChar_def BACKSLASH_def Let_def)

lemma validName_literal: "validName v \<Longrightarrow> \<forall>c \<in> set v. \<not> syntaxChar c"
  using nameChar_literal by (auto simp: validName_def)

lemma lineRegExp_valid: "validName v \<Longrightarrow> lineRegExp v = Regex (lineRegex v)"
  using validName_literal [of v] validName_facts(4) [of v]
  by (simp add: lineRegExp_def interpolated_def)

lemma placeholderRegExp_valid:
  "validName v \<Longrightarrow> placeholderRegExp v = Regex (literal (''{{'' @ v @ ''}}''))"
  using validName_literal [of v] by (simp add: placeholderRegExp_def interpolated_def)

lemma upsert_valid: "validName v \<Longrightarrow> upsert v val c = Ok (upsertLine v val c)"
  by (simp add: upsert_def lineRegExp_valid upsertLine_def)

lemma validName_not_index: "validName v \<Longrightarrow> \<not> arrayIndex v"
  by (cases v) (auto simp: validName_def arrayIndex_def)

lemma entries_valid:
  assumes "\<forall>(k, a) \<in> set obj. validName k"
  shows "entries obj = obj"
proof -
  have "\<forall>e \<in> set obj. \<not> arrayIndex (fst e)"
    using assms validName_not_index by fastforce
  then have "filter (\<lambda>e. arrayIndex (fst e)) obj = []"
    and "filter (\<lambda>e. \<not> arrayIndex (fst e)) obj = obj"
    by (simp_all add: filter_empty_conv filter_id_conv)
  then show ?thesis by (simp add: entries_def)
qed

lemma forEach_pure:
  "\<forall>x \<in> set xs. \<forall>c. body x c = Ok (g x c) \<Longrightarrow>
   forEach body xs c = Ok (foldl (\<lambda>c x. g x c) c xs)"
  by (induction xs arbitrary: c) auto

lemma forEach_upsert:
  assumes "\<forall>(k, a) \<in> set xs. validName k"
  shows "forEach (\<lambda>(varName, a) content. upsert varName (f a) content) xs c =
         Ok (upsertAll (map (\<lambda>(varName, a). (varName, f a)) xs) c)"
proof -
  have "\<forall>x \<in> set xs. \<forall>c. (\<lambda>(varName, a) content. upsert varName (f a) content) x c =
          Ok ((\<lambda>x c. upsertLine (fst x) (f (snd x)) c) x c)"
    using assms upsert_valid by (auto simp: case_prod_unfold)
  then have "forEach (\<lambda>(varName, a) content. upsert varName (f a) content) xs c =
             Ok (foldl (\<lambda>c x. upsertLine (fst x) (f (snd x)) c) c xs)"
    by (rule forEach_pure)
  moreover have "foldl (\<lambda>c x. upsertLine (fst x) (f (snd x)) c) c xs =
                 upsertAll (map (\<lambda>(varName, a). (varName, f a)) xs) c"
    by (induction xs arbitrary: c) (auto simp: upsertAll_def)
  ultimately show ?thesis by simp
qed

lemma substituteTemplate_valid:
  assumes "\<forall>(v, b) \<in> set (portMappings cfg). validName v"
  shows "substituteTemplate cfg template name idx off =
         Ok (renderLiteral (portMappings cfg) template name idx off)"
proof -
  have "\<forall>x \<in> set (entries (portMappings cfg)). \<forall>c. substitutePort off x c =
          Ok (replaceAll (literal (''{{'' @ fst x @ ''}}'')) (toString (numPlus (snd x) off)) c)"
    using assms placeholderRegExp_valid
    by (auto simp: substitutePort_def entries_valid [OF assms])
  then have "forEach (substitutePort off) (entries (portMappings cfg)) r =
       Ok (foldl (\<lambda>c x. replaceAll (literal (''{{'' @ fst x @ ''}}''))
                           (toString (numPlus (snd x) off)) c) r (entries (portMappings cfg)))"
    for r
    by (rule forEach_pure)
  then show ?thesis
    by (simp add: substituteTemplate_def renderLiteral_def Let_def case_prod_unfold
        entries_valid [OF assms])
qed

lemma envVarStep_valid:
  assumes "\<forall>(k, b) \<in> set (portMappings cfg). validName k"
  shows "envVarStep cfg off c v =
         (if getProperty (portMappings cfg) v = Inherited then Unmodelled
          else Ok (upsertAll (envVarPairs cfg off [v]) c))"
proof (cases "getProperty (portMappings cfg) v")
  case Undefined
  then show ?thesis by (simp add: envVarStep_def envVarPairs_def upsertAll_Nil)
next
  case (Own b)
  then have "map_of (portMappings cfg) v = Some b"
    by (auto simp: getProperty_def split: option.splits if_splits)
  then have "validName v" using assms map_of_SomeD by fastforce
  then show ?thesis
    using Own by (simp add: envVarStep_def envVarPairs_def upsertAll_Nil upsertAll_Cons
        upsert_valid)
next
  case Inherited
  then show ?thesis by (simp add: envVarStep_def)
qed

lemma envVarPairs_Cons:
  "envVarPairs cfg off (v # vs) = envVarPairs cfg off [v] @ envVarPairs cfg off vs"
  by (simp add: envVarPairs_def)

lemma forEach_envVarStep:
  assumes "\<forall>(k, b) \<in> set (portMappings cfg). validName k"
  shows "forEach (\<lambda>varName content. envVarStep cfg off content varName) vars c =
         (if \<exists>v \<in> set vars. getProperty (portMappings cfg) v = Inherited then Unmodelled
          else Ok (upsertAll (envVarPairs cfg off vars) c))"
proof (induction vars arbitrary: c)
  case Nil
  then show ?case by (simp add: envVarPairs_def upsertAll_Nil)
next
  case (Cons v vs)
  show ?case
    using Cons.IH envVarPairs_Cons [of cfg off v vs]
    by (simp add: envVarStep_valid [OF assms] upsertAll_append)
qed

subsection \<open>The frame of an upsert run\<close>

lemma attempt_Ok: "attempt fs (Ok x) next = next x"
  by (simp add: attempt_def)

lemma mkdirs_apply: "mkdirs fs ds q = (if q \<in> set ds then Some Dir else fs q)"
  unfolding mkdirs_def by (induction ds arbitrary: fs) auto

lemma upsertFile_File:
  "fs p = Some (File c) \<Longrightarrow> upsertFile p kvs fs = Done (fs(p \<mapsto> File (upsertAll kvs c)))"
  by (simp add: upsertFile_def attempt_def pathExists_def readFile_def writeFile_def)

lemma upsertFile_Dir: "fs p = Some Dir \<Longrightarrow> upsertFile p kvs fs = Threw IOError fs"
  by (simp add: upsertFile_def attempt_def pathExists_def readFile_def)

lemma upsertFile_None:
  "fs p = None \<Longrightarrow>
   upsertFile p kvs fs =
     (if \<exists>a \<in> set (ancestors p). isFile fs a then Threw IOError fs
      else Done ((mkdirs fs (ancestors p))(p \<mapsto> File (upsertAll kvs []))))"
  by (simp add: upsertFile_def attempt_def pathExists_def readFile_def writeFile_def
      ensureFile_def)

lemma upsertFile_Done:
  assumes "upsertFile p kvs fs = Done fs'"
  shows "fs' p = Some (File (upsertAll kvs (fileContent fs p)))"
    and "q \<noteq> p \<Longrightarrow> isFile fs q \<Longrightarrow> fs' q = fs q"
    and "q \<noteq> p \<Longrightarrow> fileContent fs' q = fileContent fs q"
proof -
  consider c where "fs p = Some (File c)" | "fs p = Some Dir" | "fs p = None"
    by (cases "fs p") (auto intro: node.exhaust)
  then have "fs' p = Some (File (upsertAll kvs (fileContent fs p)))
      \<and> (q \<noteq> p \<longrightarrow> (isFile fs q \<longrightarrow> fs' q = fs q) \<and> fileContent fs' q = fileContent fs q)"
  proof cases
    case 1
    then show ?thesis using assms by (auto simp: upsertFile_File fileContent_def)
  next
    case 2
    then show ?thesis using assms by (simp add: upsertFile_Dir)
  next
    case 3
    then have none: "\<forall>a \<in> set (ancestors p). \<not> isFile fs a"
      and fs': "fs' = (mkdirs fs (ancestors p))(p \<mapsto> File (upsertAll kvs []))"
      using assms by (auto simp: upsertFile_None split: if_splits)
    have "fs' p = Some (File (upsertAll kvs (fileContent fs p)))"
      using 3 fs' by (simp add: fileContent_def)
    moreover have "fs' q = fs q" if "q \<noteq> p" "isFile fs q"
      using that none fs' by (auto simp: mkdirs_apply)
    moreover have "fileContent fs' q = fileContent fs q" if "q \<noteq> p"
    proof (cases "q \<in> set (ancestors p)")
      case True
      then have "\<not> isFile fs q" using none by simp
      then have "fileContent fs q = []"
        by (auto simp: fileContent_def isFile_def split: option.splits node.splits)
      then show ?thesis using True that fs' by (simp add: fileContent_def mkdirs_apply)
    next
      case False
      then show ?thesis using that fs' by (simp add: fileContent_def mkdirs_apply)
    qed
    ultimately show ?thesis by simp
  qed
  then show "fs' p = Some (File (upsertAll kvs (fileContent fs p)))"
    and "q \<noteq> p \<Longrightarrow> isFile fs q \<Longrightarrow> fs' q = fs q"
    and "q \<noteq> p \<Longrightarrow> fileContent fs' q = fileContent fs q"
    by auto
qed

lemma upsertFile_writable:
  "writable fs p \<Longrightarrow> \<exists>fs'. upsertFile p kvs fs = Done fs'"
  by (auto simp: writable_def isFile_def upsertFile_File upsertFile_None
      split: option.splits node.splits)

lemma updatePortVariables_upsertFile:
  assumes "\<forall>(k, b) \<in> set pm. validName k"
  shows "updatePortVariables dir pm off fs =
         upsertFile (pathJoin dir ''.env'')
           (map (\<lambda>(varName, basePort). (varName, toString (numPlus basePort off))) pm) fs"
  using forEach_upsert [OF assms, of "\<lambda>b. toString (numPlus b off)"]
  by (simp add: updatePortVariables_def upsertFile_def Let_def attempt_Ok
      entries_valid [OF assms])

lemma updateContainerNames_upsertFile:
  assumes "\<forall>(k, b) \<in> set (portMappings cfg). validName k"
    and "\<forall>(k, t) \<in> set cn. validName k"
  shows "updateContainerNames cfg dir cn name idx fs =
         upsertFile (pathJoin dir ''.env'')
           (map (\<lambda>(varName, template).
                   (varName, renderLiteral (portMappings cfg) template name idx 0)) cn) fs"
  using forEach_upsert [OF assms(2), of "\<lambda>t. renderLiteral (portMappings cfg) t name idx 0"]
  by (simp add: updateContainerNames_def upsertFile_def Let_def attempt_Ok
      substituteTemplate_valid [OF assms(1)] entries_valid [OF assms(2)])

lemma updateEnvVars_upsertFile:
  assumes "\<forall>(k, b) \<in> set (portMappings cfg). validName k"
    and "\<forall>v \<in> set (map trim (splitOn CHR '','' varSpec)).
           getProperty (portMappings cfg) v \<noteq> Inherited"
  shows "updateEnvVars cfg target varSpec off fs =
         upsertFile target (envVarPairs cfg off (map trim (splitOn CHR '','' varSpec))) fs"
  using assms(2)
  by (simp add: updateEnvVars_def upsertFile_def Let_def attempt_Ok
      forEach_envVarStep [OF assms(1)])

lemma updateEnvVars_Done_no_inherited:
  assumes "\<forall>(k, b) \<in> set (portMappings cfg). validName k"
    and "updateEnvVars cfg target varSpec off fs = Done fs'"
  shows "\<forall>v \<in> set (map trim (splitOn CHR '','' varSpec)).
           getProperty (portMappings cfg) v \<noteq> Inherited"
proof (rule ccontr)
  assume "\<not> ?thesis"
  then have "forEach (\<lambda>varName content. envVarStep cfg off content varName)
               (map trim (splitOn CHR '','' varSpec)) c = Unmodelled" for c
    by (simp add: forEach_envVarStep [OF assms(1)])
  then have "updateEnvVars cfg target varSpec off fs \<noteq> Done fs'"
    by (auto simp: updateEnvVars_def attempt_def Let_def split: result.splits)
  then show False using assms(2) by simp
qed


subsection \<open>Batches of upserts\<close>

lemma pairsFor_Nil: "pairsFor q [] = []"
  by (simp add: pairsFor_def)

lemma pairsFor_Cons:
  "pairsFor q (b # bs) = (if fst b = q then snd b else []) @ pairsFor q bs"
  by (simp add: pairsFor_def)

lemma pairsFor_absent: "q \<notin> fst ` set bs \<Longrightarrow> pairsFor q bs = []"
  by (induction bs) (auto simp: pairsFor_Nil pairsFor_Cons)

lemma set_pairsFor: "set (pairsFor q bs) \<subseteq> \<Union> (set ` snd ` set bs)"
  by (auto simp: pairsFor_def)

lemma runBatches_Done:
  assumes "runBatches bs fs = Done fs'"
  shows "fileContent fs' q = upsertAll (pairsFor q bs) (fileContent fs q)
         \<and> (q \<in> fst ` set bs \<or> isFile fs q \<longrightarrow> isFile fs' q)"
  using assms
proof (induction bs arbitrary: fs)
  case Nil
  then show ?case by (simp add: pairsFor_Nil upsertAll_Nil)
next
  case (Cons b bs)
  from Cons.prems obtain fs1 where
    step: "upsertFile (fst b) (snd b) fs = Done fs1" and rest: "runBatches bs fs1 = Done fs'"
    by (auto split: outcome.splits)
  note ih = Cons.IH [OF rest]
  have content1: "fileContent fs1 q =
      (if q = fst b then upsertAll (snd b) (fileContent fs q) else fileContent fs q)"
    using upsertFile_Done(1,3) [OF step] by (auto simp: fileContent_def)
  have file1: "isFile fs1 q" if "q = fst b \<or> isFile fs q"
  proof (cases "q = fst b")
    case True
    then show ?thesis using upsertFile_Done(1) [OF step] by (simp add: isFile_def)
  next
    case False
    then have "fs1 q = fs q" "isFile fs q"
      using that upsertFile_Done(2) [OF step, of q] by auto
    then show ?thesis by (simp add: isFile_def)
  qed
  show ?case
    using ih content1 file1 by (auto simp: pairsFor_Cons upsertAll_append upsertAll_Nil)
qed

lemma isFile_content: "isFile fs q \<Longrightarrow> fs q = Some (File (fileContent fs q))"
  by (auto simp: isFile_def fileContent_def split: option.splits node.splits)

lemma runBatches_files:
  assumes "\<forall>q \<in> fst ` set bs. isFile fs q"
  shows "\<exists>fs'. runBatches bs fs = Done fs' \<and>
           (\<forall>q. fs' q = (if q \<in> fst ` set bs
                          then Some (File (upsertAll (pairsFor q bs) (fileContent fs q)))
                          else fs q))"
  using assms
proof (induction bs arbitrary: fs)
  case Nil
  then show ?case by simp
next
  case (Cons b bs)
  let ?p = "fst b"
  let ?fs1 = "fs(?p \<mapsto> File (upsertAll (snd b) (fileContent fs ?p)))"
  have p: "fs ?p = Some (File (fileContent fs ?p))"
    using Cons.prems isFile_content by simp
  have step: "upsertFile ?p (snd b) fs = Done ?fs1"
    using p by (rule upsertFile_File [where fs = fs and p = "fst b"])
  have "\<forall>q \<in> fst ` set bs. isFile ?fs1 q"
    using Cons.prems by (auto simp: isFile_def)
  from Cons.IH [OF this] obtain fs' where
    run: "runBatches bs ?fs1 = Done fs'" and
    at: "\<And>q. fs' q = (if q \<in> fst ` set bs
                          then Some (File (upsertAll (pairsFor q bs) (fileContent ?fs1 q)))
                          else ?fs1 q)"
    by blast
  have "runBatches (b # bs) fs = Done fs'" using step run by simp
  moreover have "fs' q = (if q \<in> fst ` set (b # bs)
                          then Some (File (upsertAll (pairsFor q (b # bs)) (fileContent fs q)))
                          else fs q)" for q
    using at [of q] pairsFor_absent [of q bs]
    by (auto simp: pairsFor_Cons upsertAll_append upsertAll_Nil fileContent_def)
  ultimately show ?case by blast
qed

lemma runBatches_idempotent:
  assumes run: "runBatches bs fs = Done fs1"
    and ok: "\<forall>b \<in> set bs. \<forall>(k, y) \<in> set (snd b). keyName k \<and> plain y"
  shows "runBatches bs fs1 = Done fs1"
proof -
  have files: "\<forall>q \<in> fst ` set bs. isFile fs1 q"
    using runBatches_Done [OF run] by blast
  from runBatches_files [OF files] obtain fs2 where
    run2: "runBatches bs fs1 = Done fs2" and
    at: "\<And>q. fs2 q = (if q \<in> fst ` set bs
                          then Some (File (upsertAll (pairsFor q bs) (fileContent fs1 q)))
                          else fs1 q)"
    by blast
  have "fs2 q = fs1 q" for q
  proof (cases "q \<in> fst ` set bs")
    case True
    have pairs: "\<forall>(k, y) \<in> set (pairsFor q bs). keyName k \<and> plain y"
      using ok set_pairsFor [of q bs] by fastforce
    have "fileContent fs1 q = upsertAll (pairsFor q bs) (fileContent fs q)"
      using runBatches_Done [OF run] by simp
    then have "upsertAll (pairsFor q bs) (fileContent fs1 q) = fileContent fs1 q"
      using upsertAll_idempotent [OF pairs] by simp
    moreover have "fs1 q = Some (File (fileContent fs1 q))"
      using files True isFile_content [of fs1 q] by blast
    ultimately show ?thesis using at [of q] True by simp
  next
    case False
    then show ?thesis using at [of q] by simp
  qed
  then have "fs2 = fs1" by (rule ext)
  then show ?thesis using run2 by simp
qed


subsection \<open>The orchestrator as batches\<close>

lemma runBatches_append:
  "runBatches (as @ bs) fs =
     (case runBatches as fs of Done fs' \<Rightarrow> runBatches bs fs' | other \<Rightarrow> other)"
  by (induction as arbitrary: fs) (auto split: outcome.splits)

lemma processFileUpdate_env_vars:
  "updateType u = ''env_vars'' \<Longrightarrow>
   processFileUpdate cfg git u name dir idx off fs =
     updateEnvVars cfg (pathJoin dir (filePath u)) (spec u) off fs"
  by (simp add: processFileUpdate_def)

lemma processFileUpdates_batches:
  assumes "\<forall>(k, b) \<in> set (portMappings cfg). validName k"
    and "\<forall>u \<in> set us. updateType u = ''env_vars''"
    and "\<forall>u \<in> set us. \<forall>v \<in> set (map trim (splitOn CHR '','' (spec u))).
           getProperty (portMappings cfg) v \<noteq> Inherited"
  shows "processFileUpdates cfg git us name dir idx off fs =
         runBatches (map (ruleBatch cfg dir off) us) fs"
  using assms(2,3)
proof (induction us arbitrary: fs)
  case Nil
  then show ?case by simp
next
  case (Cons u us)
  have "processFileUpdate cfg git u name dir idx off fs =
        upsertFile (fst (ruleBatch cfg dir off u)) (snd (ruleBatch cfg dir off u)) fs"
    using Cons.prems updateEnvVars_upsertFile [OF assms(1), of "spec u"]
    by (simp add: processFileUpdate_env_vars ruleBatch_def)
  then show ?case using Cons by (simp split: outcome.splits)
qed

lemma processFileUpdates_Done_no_inherited:
  assumes "\<forall>(k, b) \<in> set (portMappings cfg). validName k"
    and "\<forall>u \<in> set us. updateType u = ''env_vars''"
    and "processFileUpdates cfg git us name dir idx off fs = Done fs'"
  shows "\<forall>u \<in> set us. \<forall>v \<in> set (map trim (splitOn CHR '','' (spec u))).
           getProperty (portMappings cfg) v \<noteq> Inherited"
  using assms(2,3)
proof (induction us arbitrary: fs)
  case Nil
  then show ?case by simp
next
  case (Cons u us)
  from Cons.prems obtain fs1 where
    step: "updateEnvVars cfg (pathJoin dir (filePath u)) (spec u) off fs = Done fs1"
    and rest: "processFileUpdates cfg git us name dir idx off fs1 = Done fs'"
    by (auto simp: processFileUpdate_env_vars split: outcome.splits)
  have "\<forall>v \<in> set (map trim (splitOn CHR '','' (spec u))).
           getProperty (portMappings cfg) v \<noteq> Inherited"
    using updateEnvVars_Done_no_inherited [OF assms(1) step] .
  moreover have "\<forall>u \<in> set us. \<forall>v \<in> set (map trim (splitOn CHR '','' (spec u))).
           getProperty (portMappings cfg) v \<noteq> Inherited"
    using Cons.IH [OF _ rest] Cons.prems(1) by simp
  ultimately show ?case by simp
qed

lemma upsertTables_batches:
  assumes "\<forall>(k, b) \<in> set (portMappings cfg). validName k"
    and "\<forall>(k, t) \<in> set (containerNames cfg). validName k"
  shows "upsertTables cfg name dir idx off fs =
         runBatches (tableBatches cfg name dir idx off) fs"
  by (simp add: upsertTables_def tableBatches_def
      updatePortVariables_upsertFile [OF assms(1)]
      updateContainerNames_upsertFile [OF assms(1) assms(2)]
      split: outcome.splits)

lemma updateEnvironmentFiles_batches:
  assumes "\<forall>(k, b) \<in> set (portMappings cfg). validName k"
    and "\<forall>(k, t) \<in> set (containerNames cfg). validName k"
    and "\<forall>u \<in> set (fileUpdates cfg). updateType u = ''env_vars''"
    and "\<forall>u \<in> set (fileUpdates cfg). \<forall>v \<in> set (map trim (splitOn CHR '','' (spec u))).
           getProperty (portMappings cfg) v \<noteq> Inherited"
    and "git name = Inr idx"
  shows "updateEnvironmentFiles cfg git name dir fs = runBatches (runBatchesOf cfg name dir idx) fs"
  using assms(5)
  by (simp add: updateEnvironmentFiles_def calculatePortOffset_def runBatchesOf_def
      runBatches_append processFileUpdates_batches [OF assms(1) assms(3) assms(4)]
      upsertTables_batches [OF assms(1) assms(2)] split: outcome.splits)

lemma updateEnvironmentFiles_Done:
  assumes "\<forall>(k, b) \<in> set (portMappings cfg). validName k"
    and "\<forall>u \<in> set (fileUpdates cfg). updateType u = ''env_vars''"
    and "updateEnvironmentFiles cfg git name dir fs = Done fs'"
  shows "\<exists>idx. git name = Inr idx"
    and "\<forall>u \<in> set (fileUpdates cfg). \<forall>v \<in> set (map trim (splitOn CHR '','' (spec u))).
           getProperty (portMappings cfg) v \<noteq> Inherited"
proof -
  from assms(3) obtain idx fs1 where
    idx: "git name = Inr idx" and
    "processFileUpdates cfg git (fileUpdates cfg) name dir idx (idx * portOffsetIncrement cfg) fs
       = Done fs1"
    by (auto simp: updateEnvironmentFiles_def calculatePortOffset_def
        split: sum.splits outcome.splits)
  then show "\<exists>idx. git name = Inr idx"
    and "\<forall>u \<in> set (fileUpdates cfg). \<forall>v \<in> set (map trim (splitOn CHR '','' (spec u))).
           getProperty (portMappings cfg) v \<noteq> Inherited"
    using processFileUpdates_Done_no_inherited [OF assms(1) assms(2)] by blast+
qed

lemma envVarPairs_plain: "\<forall>(k, y) \<in> set (envVarPairs cfg off vars). plain y"
  by (auto simp: envVarPairs_def toString_plain split: property.splits if_splits)

lemma envVarPairs_keys:
  assumes "\<forall>(k, b) \<in> set (portMappings cfg). validName k"
  shows "\<forall>(k, y) \<in> set (envVarPairs cfg off vars). validName k"
proof -
  have "validName v" if "getProperty (portMappings cfg) v = Own b" for v b
  proof -
    from that have "map_of (portMappings cfg) v = Some b"
      by (auto simp: getProperty_def split: option.splits if_splits)
    then show ?thesis using assms map_of_SomeD by fastforce
  qed
  then show ?thesis
    by (auto simp: envVarPairs_def split: property.splits if_splits) metis
qed

lemma runBatchesOf_settled:
  assumes "\<forall>(k, b) \<in> set (portMappings cfg). validName k"
    and "\<forall>(k, t) \<in> set (containerNames cfg).
           validName k \<and> plain (renderLiteral (portMappings cfg) t name idx 0)"
  shows "\<forall>b \<in> set (runBatchesOf cfg name dir idx). \<forall>(k, y) \<in> set (snd b). keyName k \<and> plain y"
proof -
  have rules: "\<forall>(k, y) \<in> set (snd (ruleBatch cfg dir off u)). keyName k \<and> plain y" for off u
    using envVarPairs_plain [of cfg off] envVarPairs_keys [OF assms(1), of off]
      validName_keyName
    by (fastforce simp: ruleBatch_def)
  have ports: "\<forall>(k, y) \<in> set (map (\<lambda>(varName, basePort).
                     (varName, toString (numPlus basePort off))) (portMappings cfg)).
                 keyName k \<and> plain y" for off
    using assms(1) validName_keyName toString_plain by fastforce
  have names: "\<forall>(k, y) \<in> set (map (\<lambda>(varName, template).
                     (varName, renderLiteral (portMappings cfg) template name idx 0))
                     (containerNames cfg)).
                 keyName k \<and> plain y"
    using assms(2) validName_keyName by fastforce
  have tables: "\<forall>b \<in> set (tableBatches cfg name dir idx off).
                  \<forall>(k, y) \<in> set (snd b). keyName k \<and> plain y" for off
    using ports [of off] names by (auto simp: tableBatches_def split: if_splits)
  have "\<forall>(k, y) \<in> set (snd b). keyName k \<and> plain y"
    if "b \<in> set (runBatchesOf cfg name dir idx)" for b
  proof -
    from that consider u where "b = ruleBatch cfg dir (idx * portOffsetIncrement cfg) u"
      | "b \<in> set (tableBatches cfg name dir idx (idx * portOffsetIncrement cfg))"
      by (auto simp: runBatchesOf_def)
    then show ?thesis
    proof cases
      case 1
      then show ?thesis using rules by simp
    next
      case 2
      then show ?thesis using tables by blast
    qed
  qed
  then show ?thesis by blast
qed

lemma steps_idempotent:
  assumes pm: "\<forall>(k, b) \<in> set (portMappings cfg). validName k"
    and cn: "\<forall>(k, t) \<in> set (containerNames cfg).
           validName k \<and> (\<exists>r. substituteTemplate cfg t name idx 0 = Ok r \<and> plain r)"
    and rules: "\<forall>u \<in> set (fileUpdates cfg). updateType u = ''env_vars''"
    and run: "updateEnvironmentFiles cfg git name dir fs = Done fs1"
    and idx: "git name = Inr idx"
  shows "updateEnvironmentFiles cfg git name dir fs1 = Done fs1"
proof -
  have cn1: "\<forall>(k, t) \<in> set (containerNames cfg). validName k" using cn by auto
  have cn2: "\<forall>(k, t) \<in> set (containerNames cfg).
           validName k \<and> plain (renderLiteral (portMappings cfg) t name idx 0)"
    using cn by (auto simp: substituteTemplate_valid [OF pm])
  note inh = updateEnvironmentFiles_Done(2) [OF pm rules run]
  have eq: "updateEnvironmentFiles cfg git name dir g =
            runBatches (runBatchesOf cfg name dir idx) g" for g
    using pm cn1 rules inh idx by (rule updateEnvironmentFiles_batches)
  have "runBatches (runBatchesOf cfg name dir idx) fs = Done fs1"
    using run eq by simp
  then have "runBatches (runBatchesOf cfg name dir idx) fs1 = Done fs1"
    using runBatchesOf_settled [OF pm cn2] by (rule runBatches_idempotent)
  then show ?thesis using eq by simp
qed


subsection \<open>The line of a key after the upserts\<close>

lemma setLine_other:
  assumes "keyName k" and "keyName v" and "k \<noteq> v" and "keyPrefix v l"
  shows "setLine k y l = l"
  using assms keyPrefix_same [of k v l] by (auto simp: setLine_def keyName_def)

lemma setAll_other:
  "\<forall>(k, y) \<in> set kvs. keyName k \<and> k \<noteq> v \<Longrightarrow> keyName v \<Longrightarrow> keyPrefix v l \<Longrightarrow>
   setAll kvs l = l"
  by (induction kvs arbitrary: l) (auto simp: setAll_Nil setAll_Cons setLine_other)

lemma setAll_key:
  assumes "\<forall>(k, y) \<in> set kvs. keyName k" and "distinct (map fst kvs)"
    and "(v, x) \<in> set kvs" and "keyPrefix v l"
  shows "setAll kvs l = v @ ''='' @ x"
  using assms
proof (induction kvs arbitrary: l)
  case Nil
  then show ?case by simp
next
  case (Cons p kvs)
  obtain k y where p: "p = (k, y)" by (cases p)
  have v: "keyName v" using Cons.prems(1,3) by auto
  show ?case
  proof (cases "k = v")
    case True
    have "v \<notin> fst ` set kvs" using Cons.prems(2) p True by simp
    then have x: "y = x" and rest: "\<forall>(k, y) \<in> set kvs. keyName k \<and> k \<noteq> v"
      using Cons.prems(1,3) p True by (auto simp: rev_image_eqI)
    have "setLine k y l = v @ ''='' @ x"
      using Cons.prems(4) True x by (simp add: setLine_def)
    then show ?thesis
      using setAll_other [OF rest v keyPrefix_self [of v x]] p by (simp add: setAll_Cons)
  next
    case False
    have k: "keyName k" using Cons.prems(1) p by simp
    have "setLine k y l = l"
      using setLine_other [OF k v False Cons.prems(4)] .
    moreover have "(v, x) \<in> set kvs" using Cons.prems(3) p False by auto
    ultimately show ?thesis
      using Cons.IH [of l] Cons.prems p by (simp add: setAll_Cons)
  qed
qed

lemma upsertAll_exact:
  assumes "\<forall>(k, y) \<in> set kvs. keyName k \<and> plain y"
    and "distinct (map fst kvs)" and "(v, x) \<in> set kvs"
  shows "hasLine v (upsertAll kvs c)"
    and "\<forall>l \<in> set (linesOf (upsertAll kvs c)). keyPrefix v l \<longrightarrow> l = v @ ''='' @ x"
proof -
  note settled = upsertAll_settled [OF assms(1), of c]
  show "hasLine v (upsertAll kvs c)" using settled assms(3) by blast
  have keys: "\<forall>(k, y) \<in> set kvs. keyName k" using assms(1) by auto
  show "\<forall>l \<in> set (linesOf (upsertAll kvs c)). keyPrefix v l \<longrightarrow> l = v @ ''='' @ x"
  proof (intro ballI impI)
    fix l
    assume l: "l \<in> set (linesOf (upsertAll kvs c))" and pre: "keyPrefix v l"
    have "setAll kvs l = l" using settled l by blast
    then show "l = v @ ''='' @ x"
      using setAll_key [OF keys assms(2) assms(3) pre] by simp
  qed
qed



subsection \<open>Templates\<close>

lemma replaceFrom_literal:
  "CHR ''$'' \<notin> set new \<Longrightarrow> p \<noteq> [] \<Longrightarrow>
   replaceFrom (literal p) new pre s skip = replaceEvery p new s skip"
proof (induction s arbitrary: pre skip)
  case Nil
  then show ?case by (simp add: literal_def)
next
  case (Cons c cs)
  then show ?case
    by (simp add: literal_def getSubstitution_no_dollar)
qed

lemma replaceAll_literal:
  "CHR ''$'' \<notin> set new \<Longrightarrow> p \<noteq> [] \<Longrightarrow> replaceAll (literal p) new s = replaceEvery p new s 0"
  by (simp add: replaceAll_def replaceFrom_literal)

lemma replaceFrom_absent:
  "\<not> sublist p s \<Longrightarrow> replaceFrom (literal p) new pre s 0 = s"
proof (induction s arbitrary: pre)
  case Nil
  then have "p \<noteq> []" by auto
  then show ?case by (simp add: literal_def)
next
  case (Cons c cs)
  have "\<not> prefix p (c # cs)"
    using Cons.prems by (auto dest: prefix_imp_sublist)
  moreover have "\<not> sublist p cs"
    using Cons.prems by (simp add: sublist_Cons_right)
  ultimately show ?case
    using Cons.IH [of "pre @ [c]"] by (simp add: literal_def del: prefix_code)
qed

lemma replaceAll_absent: "\<not> sublist p s \<Longrightarrow> replaceAll (literal p) new s = s"
  by (simp add: replaceAll_def replaceFrom_absent)

lemma intToString_no_dollar: "CHR ''$'' \<notin> set (intToString i)"
  using toString_plain [of "Num i"] by (simp add: plain_def)

lemma toString_no_dollar: "CHR ''$'' \<notin> set (toString x)"
  using toString_plain [of x] by (simp add: plain_def)

lemma foldl_ports_spec:
  "foldl (\<lambda>result (portVar, basePort).
            replaceAll (literal (''{{'' @ portVar @ ''}}'')) (toString (numPlus basePort off)) result)
     r pm =
   foldl (\<lambda>text (portVar, basePort).
            replaceEvery (''{{'' @ portVar @ ''}}'') (toString (numPlus basePort off)) text 0)
     r pm"
  by (induction pm arbitrary: r) (auto simp: replaceAll_literal toString_no_dollar)

lemma foldl_ports_absent:
  "\<forall>(v, b) \<in> set pm. \<not> sublist (''{{'' @ v @ ''}}'') r \<Longrightarrow>
   foldl (\<lambda>result (portVar, basePort).
            replaceAll (literal (''{{'' @ portVar @ ''}}'')) (toString (numPlus basePort off)) result)
     r pm = r"
  by (induction pm) (auto simp: replaceAll_absent)

lemma renderLiteral_spec:
  "CHR ''$'' \<notin> set name \<Longrightarrow>
   renderLiteral pm template name idx off = renderSpec template name idx off pm"
  unfolding renderLiteral_def renderSpec_def foldl_ports_spec
  by (simp add: replaceAll_literal intToString_no_dollar)

lemma renderLiteral_absent:
  assumes "\<not> sublist ''{{WORKTREE_NAME}}'' template"
    and "\<not> sublist ''{{WORKTREE_INDEX}}'' template"
    and "\<forall>(v, b) \<in> set pm. \<not> sublist (''{{'' @ v @ ''}}'') template"
  shows "renderLiteral pm template name idx off = template"
  using assms foldl_ports_absent [of pm template off]
  by (simp add: renderLiteral_def replaceAll_absent)

lemma numPlus_zero: "numPlus b 0 = b"
  by (cases b) auto

subsection \<open>Exceptions of the rules\<close>

lemma readFile_isFile: "isFile fs p \<Longrightarrow> readFile fs p = Ok (fileContent fs p)"
  by (auto simp: isFile_def readFile_def fileContent_def split: option.splits node.splits)

lemma forEach_Throws:
  "forEach body xs c = Throws e \<Longrightarrow> \<exists>x \<in> set xs. \<exists>c'. body x c' = Throws e"
  by (induction xs arbitrary: c) (auto split: result.splits)

lemma substituteTemplate_Throws:
  "substituteTemplate cfg template name idx off = Throws e \<Longrightarrow> e = SyntaxError"
  by (auto simp: substituteTemplate_def substitutePort_def Let_def
      dest!: forEach_Throws split: compiled.splits)

lemma replaceInFile_throws:
  assumes "git name = Inr i"
  shows "isFile fs p \<Longrightarrow> repl0 = None \<Longrightarrow>
           replaceInFile cfg git p pat repl0 name idx fs = Threw TypeError fs"
    and "isFile fs p \<Longrightarrow> repl0 \<noteq> None \<Longrightarrow> notCompiling pat \<Longrightarrow>
           replaceInFile cfg git p pat repl0 name idx fs = Threw SyntaxError fs"
    and "fs p = Some Dir \<Longrightarrow> replaceInFile cfg git p pat repl0 name idx fs = Threw IOError fs"
    and "fs p = None \<Longrightarrow> replaceInFile cfg git p pat repl0 name idx fs = Done fs"
proof -
  show "replaceInFile cfg git p pat repl0 name idx fs = Threw TypeError fs"
    if "isFile fs p" "repl0 = None"
    using that assms readFile_isFile [of fs p]
    by (simp add: replaceInFile_def calculatePortOffset_def pathExists_def attempt_def
        isFile_def split: option.splits)
  show "replaceInFile cfg git p pat repl0 name idx fs = Threw SyntaxError fs"
    if "isFile fs p" "repl0 \<noteq> None" "notCompiling pat"
    using that assms readFile_isFile [of fs p]
    by (auto simp: replaceInFile_def calculatePortOffset_def pathExists_def attempt_def
        isFile_def notCompiling_def dest: substituteTemplate_Throws
        split: option.splits result.splits compiled.splits)
  show "replaceInFile cfg git p pat repl0 name idx fs = Threw IOError fs" if "fs p = Some Dir"
    using that by (simp add: replaceInFile_def pathExists_def attempt_def readFile_def)
  show "replaceInFile cfg git p pat repl0 name idx fs = Done fs" if "fs p = None"
    using that by (simp add: replaceInFile_def pathExists_def)
qed

lemma updateEnvVars_loop:
  "updateEnvVars cfg target varSpec off fs =
     (if writable fs target
      then (case forEach (\<lambda>varName content. envVarStep cfg off content varName)
                   (map trim (splitOn CHR '','' varSpec)) (fileContent fs target) of
              Ok content' \<Rightarrow>
                Done ((if fs target = None then mkdirs fs (ancestors target) else fs)
                        (target \<mapsto> File content'))
            | Throws e \<Rightarrow>
                Threw e ((if fs target = None
                          then (mkdirs fs (ancestors target))(target \<mapsto> File []) else fs))
            | Unmodelled \<Rightarrow> OutsideModel)
      else Threw IOError fs)"
proof -
  consider c where "fs target = Some (File c)" | "fs target = Some Dir" | "fs target = None"
    by (cases "fs target") (auto intro: node.exhaust)
  then show ?thesis
  proof cases
    case 1
    then show ?thesis
      by (simp add: updateEnvVars_def Let_def pathExists_def attempt_def readFile_def
          writeFile_def writable_def isFile_def fileContent_def split: result.splits)
  next
    case 2
    then show ?thesis
      by (simp add: updateEnvVars_def Let_def pathExists_def attempt_def readFile_def
          writable_def isFile_def)
  next
    case 3
    then show ?thesis
      by (simp add: updateEnvVars_def Let_def pathExists_def attempt_def readFile_def
          writeFile_def writable_def isFile_def fileContent_def ensureFile_def
          split: result.splits)
  qed
qed

lemma getProperty_Inherited:
  "getProperty obj v = Inherited \<Longrightarrow> v \<in> set inheritedKeys"
  by (auto simp: getProperty_def split: option.splits if_splits)

lemma forEach_envVarStep_Ok:
  assumes "\<forall>(k, b) \<in> set (portMappings cfg). validName k"
    and "\<forall>v \<in> set vars. v \<notin> set inheritedKeys"
  shows "\<exists>c. forEach (\<lambda>varName content. envVarStep cfg off content varName) vars content = Ok c"
proof -
  have "\<not> (\<exists>v \<in> set vars. getProperty (portMappings cfg) v = Inherited)"
    using assms(2) getProperty_Inherited by blast
  then show ?thesis by (simp add: forEach_envVarStep [OF assms(1)])
qed

lemma appendFile_missing:
  "fs p = None \<Longrightarrow>
   appendFile fs p content =
     (if isDirectory fs (dirname p) then Ok (fs(p \<mapsto> File content)) else Throws IOError)"
  by (simp add: appendFile_def)

lemma updateEnvironmentFiles_last:
  assumes "updateEnvironmentFiles cfg git name dir fs = Done fs'"
    and "git name = Inr idx"
    and "containerNames cfg \<noteq> []"
  shows "\<exists>fs2. updateContainerNames cfg dir (containerNames cfg) name idx fs2 = Done fs'"
proof -
  obtain off fs1 where "upsertTables cfg name dir idx off fs1 = Done fs'"
    using assms(1,2)
    by (auto simp: updateEnvironmentFiles_def calculatePortOffset_def split: outcome.splits)
  then show ?thesis
    using assms(3) by (auto simp: upsertTables_def split: outcome.splits if_splits)
qed

lemma runBatches_one_path:
  "\<forall>b \<in> set bs. fst b = p \<Longrightarrow> writable fs p \<Longrightarrow> \<exists>fs'. runBatches bs fs = Done fs'"
proof (induction bs arbitrary: fs)
  case Nil
  then show ?case by simp
next
  case (Cons b bs)
  have p: "fst b = p" using Cons.prems(1) by simp
  obtain fs1 where step: "upsertFile p (snd b) fs = Done fs1"
    using upsertFile_writable [OF Cons.prems(2)] by blast
  have "fs1 p = Some (File (upsertAll (snd b) (fileContent fs p)))"
    using step by (rule upsertFile_Done(1))
  then have "writable fs1 p" by (simp add: writable_def isFile_def)
  then show ?case using Cons.IH [of fs1] Cons.prems(1) step p by simp
qed

subsection \<open>Scalars that do not parse\<close>






subsection \<open>Rendering with the offset \<open>0\<close>\<close>

lemma substituteTemplate_increment:
  "substituteTemplate (cfg\<lparr>portOffsetIncrement := k\<rparr>) t name idx off =
   substituteTemplate cfg t name idx off"
  by (simp add: substituteTemplate_def)

lemma renderLiteral_zero:
  "renderLiteral pm t name idx 0 =
     foldl (\<lambda>result (portVar, basePort).
              replaceAll (literal (''{{'' @ portVar @ ''}}'')) (toString basePort) result)
       (replaceAll (literal ''{{WORKTREE_INDEX}}'') (intToString idx)
          (replaceAll (literal ''{{WORKTREE_NAME}}'') name t))
       pm"
  by (simp add: renderLiteral_def numPlus_zero)

lemma substituteTemplate_no_ports:
  "portMappings cfg = [] \<Longrightarrow>
   substituteTemplate cfg template name idx off =
     Ok (replaceAll (literal ''{{WORKTREE_INDEX}}'') (intToString idx)
           (replaceAll (literal ''{{WORKTREE_NAME}}'') name template))"
  by (simp add: substituteTemplate_def entries_def Let_def)

subsection \<open>The example inputs\<close>

lemma example_paths:
  "pathJoin ''/w'' ''a.txt'' = ''/w/a.txt''"
  "pathJoin ''/w'' ''b.txt'' = ''/w/b.txt''"
  "pathJoin ''/w'' ''.env'' = ''/w/.env''"
  "pathJoin ''/w'' ''notes.txt'' = ''/w/notes.txt''"
  "pathJoin ''/w'' ''compose.yml'' = ''/w/compose.yml''"
  "pathJoin ''/w'' ''config/.env.local'' = ''/w/config/.env.local''"
  "pathJoin ''/w'' ''logs/notes.txt'' = ''/w/logs/notes.txt''"
  "pathJoin ''/w'' ''logs/.env'' = ''/w/logs/.env''"
  by (simp_all add: pathJoin_def normalize_def)

lemma example_ancestors:
  "ancestors ''/w/a.txt'' = [''/w'']"
  "ancestors ''/w/b.txt'' = [''/w'']"
  "ancestors ''/w/.env'' = [''/w'']"
  "ancestors ''/w/notes.txt'' = [''/w'']"
  "ancestors ''/w/config/.env.local'' = [''/w'', ''/w/config'']"
  "ancestors ''/w/logs/notes.txt'' = [''/w'', ''/w/logs'']"
  "ancestors ''/w/logs/.env'' = [''/w'', ''/w/logs'']"
  "ancestors ''/w/a.txt/.env'' = [''/w'', ''/w/a.txt'']"
  by (simp_all add: ancestors_def)

lemma example_names:
  "validName ''A''" "validName ''C''" "validName ''API_PORT''" "validName ''WEB_PORT''"
  "validName ''CLIENT_PORT''" "validName ''DB_CONTAINER''" "validName ''API_CONTAINER''"
  by (simp_all add: validName_def nameChar_def isDigit_def inheritedKeys_def)

lemma hello_render:
  "substituteTemplate loadDefaultConfig ''hello'' name idx off = Ok ''hello''"
  by (simp add: substituteTemplate_no_ports loadDefaultConfig_def replaceAll_def literal_def)

lemma upsertExample_steps:
  "envVarStep upsertExample 5 (''A=1'' @ [LF] @ ''B=2'') ''A'' = Ok (''A=105'' @ [LF] @ ''B=2'')"
  "envVarStep upsertExample 5 (''A=1'' @ [LF] @ ''A=2'') ''A'' = Ok (''A=105'' @ [LF] @ ''A=105'')"
  "envVarStep upsertExample 5 [] ''A'' = Ok ([LF] @ ''A=105'')"
  "envVarStep upsertExample 5 c ''C'' = Ok c"
proof -
  have t: "intToString 105 = ''105''"
    by (simp add: intToString_def decimal.simps digitChar_def)
  have p: "getProperty (portMappings upsertExample) ''A'' = Own (Num 100)"
    "getProperty (portMappings upsertExample) ''C'' = Undefined"
    by (simp_all add: upsertExample_def loadDefaultConfig_def getProperty_def inheritedKeys_def)
  have u: "upsert ''A'' ''105'' c =
      Ok (if hasLine ''A'' c then mapLines (setLine ''A'' ''105'') c else c @ LF # ''A=105'')" for c
    using upsert_lines [OF validName_keyName [OF example_names(1)], of "''105''" c]
    by (simp add: upsert_valid [OF example_names(1)])
  show "envVarStep upsertExample 5 (''A=1'' @ [LF] @ ''B=2'') ''A'' = Ok (''A=105'' @ [LF] @ ''B=2'')"
    "envVarStep upsertExample 5 (''A=1'' @ [LF] @ ''A=2'') ''A'' = Ok (''A=105'' @ [LF] @ ''A=105'')"
    "envVarStep upsertExample 5 [] ''A'' = Ok ([LF] @ ''A=105'')"
    "envVarStep upsertExample 5 c ''C'' = Ok c"
    by (simp_all add: envVarStep_def p t u hasLine_def keyPrefix_def mapLines_def setLine_def
        isLineTerminator_def LF_def CR_def)
qed

lemma templateExample_render:
  "renderSpec ''Worktree: {{WORKTREE_NAME}}, Index: {{WORKTREE_INDEX}}, API: {{API_PORT}}, DB: {{DB_PORT}}''
     ''test-branch'' 2 200 [(''API_PORT'', Num 3000)]
   = ''Worktree: test-branch, Index: 2, API: 3200, DB: {{DB_PORT}}''"
proof -
  have "toString (numPlus (Num 3000) 200) = ''3200''" "intToString 2 = ''2''"
    by (simp_all add: intToString_def decimal.simps digitChar_def)
  moreover have "replaceEvery ''{{WORKTREE_NAME}}'' ''test-branch''
      ''Worktree: {{WORKTREE_NAME}}, Index: {{WORKTREE_INDEX}}, API: {{API_PORT}}, DB: {{DB_PORT}}'' 0
    = ''Worktree: test-branch, Index: {{WORKTREE_INDEX}}, API: {{API_PORT}}, DB: {{DB_PORT}}''"
    by simp
  moreover have "replaceEvery ''{{WORKTREE_INDEX}}'' ''2''
      ''Worktree: test-branch, Index: {{WORKTREE_INDEX}}, API: {{API_PORT}}, DB: {{DB_PORT}}'' 0
    = ''Worktree: test-branch, Index: 2, API: {{API_PORT}}, DB: {{DB_PORT}}''"
    by simp
  moreover have "replaceEvery ''{{API_PORT}}'' ''3200''
      ''Worktree: test-branch, Index: 2, API: {{API_PORT}}, DB: {{DB_PORT}}'' 0
    = ''Worktree: test-branch, Index: 2, API: 3200, DB: {{DB_PORT}}''"
    by simp
  ultimately show ?thesis
    by (simp add: renderSpec_def del: numPlus.simps toString.simps replaceEvery.simps)
qed

lemma containerExample_render:
  "substituteTemplate containerExample ''myapp-{{WORKTREE_NAME}}-db'' ''feature1'' 5 0
     = Ok ''myapp-feature1-db''"
  "substituteTemplate containerExample ''api-{{WORKTREE_INDEX}}-{{API_PORT}}'' ''feature1'' 5 0
     = Ok ''api-5-3000''"
proof -
  have pm: "portMappings containerExample = [(''API_PORT'', Num 3000)]"
    by (simp add: containerExample_def loadDefaultConfig_def)
  have v: "\<forall>(k, b) \<in> set (portMappings containerExample). validName k"
    by (simp add: pm example_names)
  have "renderLiteral [(''API_PORT'', Num 3000)] ''myapp-{{WORKTREE_NAME}}-db'' ''feature1'' 5 0
      = ''myapp-feature1-db''"
    "renderLiteral [(''API_PORT'', Num 3000)] ''api-{{WORKTREE_INDEX}}-{{API_PORT}}'' ''feature1'' 5 0
      = ''api-5-3000''"
    by code_simp+
  then show
    "substituteTemplate containerExample ''myapp-{{WORKTREE_NAME}}-db'' ''feature1'' 5 0
       = Ok ''myapp-feature1-db''"
    "substituteTemplate containerExample ''api-{{WORKTREE_INDEX}}-{{API_PORT}}'' ''feature1'' 5 0
       = Ok ''api-5-3000''"
    by (simp_all only: substituteTemplate_valid [OF v] pm)
qed

lemma envVarsExample_ports:
  "toString (numPlus (Num 3000) 20) = ''3020''"
  "toString (numPlus (Num 8080) 20) = ''8100''"
  by (simp_all add: intToString_def decimal.simps digitChar_def)

lemma envVarsExample_upserts:
  "upsertAll [(''API_PORT'', ''3020''), (''WEB_PORT'', ''8100'')] []
     = [LF] @ ''API_PORT=3020'' @ [LF] @ ''WEB_PORT=8100''"
proof -
  have "upsertLine ''API_PORT'' ''3020'' [] = [LF] @ ''API_PORT=3020''"
    "upsertLine ''WEB_PORT'' ''8100'' ([LF] @ ''API_PORT=3020'')
     = [LF] @ ''API_PORT=3020'' @ [LF] @ ''WEB_PORT=8100''"
    by code_simp+
  then show ?thesis by (simp add: upsertAll_Cons upsertAll_Nil)
qed

lemma envVarsExample_batches:
  "runBatchesOf envVarsExample ''feature2'' ''/w'' 2 =
     [(''/w/config/.env.local'', [(''API_PORT'', ''3020''), (''WEB_PORT'', ''8100'')]),
      (''/w/.env'', [(''API_PORT'', ''3020''), (''WEB_PORT'', ''8100'')])]"
proof -
  have c: "portMappings envVarsExample = [(''API_PORT'', Num 3000), (''WEB_PORT'', Num 8080)]"
    "fileUpdates envVarsExample =
      [\<lparr>filePath = ''config/.env.local'', updateType = ''env_vars'',
        spec = ''API_PORT,WEB_PORT'', searchPattern = None, replacement = None\<rparr>]"
    "portOffsetIncrement envVarsExample = 10" "containerNames envVarsExample = []"
    by (simp_all add: envVarsExample_def loadDefaultConfig_def)
  have s: "map trim (splitOn CHR '','' ''API_PORT,WEB_PORT'') = [''API_PORT'', ''WEB_PORT'']"
    by code_simp
  have e: "envVarPairs envVarsExample 20 [''API_PORT'', ''WEB_PORT'']
      = [(''API_PORT'', ''3020''), (''WEB_PORT'', ''8100'')]"
    using envVarsExample_ports
    by (simp add: envVarPairs_def c getProperty_def del: numPlus.simps toString.simps)
  have r: "ruleBatch envVarsExample ''/w'' 20
             \<lparr>filePath = ''config/.env.local'', updateType = ''env_vars'',
               spec = ''API_PORT,WEB_PORT'', searchPattern = None, replacement = None\<rparr>
           = (''/w/config/.env.local'', [(''API_PORT'', ''3020''), (''WEB_PORT'', ''8100'')])"
    unfolding ruleBatch_def FileUpdate.select_convs s e example_paths ..
  have t: "tableBatches envVarsExample ''feature2'' ''/w'' 2 20
           = [(''/w/.env'', [(''API_PORT'', ''3020''), (''WEB_PORT'', ''8100'')])]"
    unfolding tableBatches_def c example_paths
    using envVarsExample_ports by (simp del: numPlus.simps toString.simps)
  show ?thesis
    unfolding runBatchesOf_def c using r t by simp
qed

lemma envVarsExample_run:
  "updateEnvironmentFiles envVarsExample indexTwo ''feature2'' ''/w'' emptyWorktree
     = Done envVarsExampleFiles"
proof -
  have c: "portMappings envVarsExample = [(''API_PORT'', Num 3000), (''WEB_PORT'', Num 8080)]"
    "fileUpdates envVarsExample =
      [\<lparr>filePath = ''config/.env.local'', updateType = ''env_vars'',
        spec = ''API_PORT,WEB_PORT'', searchPattern = None, replacement = None\<rparr>]"
    "containerNames envVarsExample = []"
    by (simp_all add: envVarsExample_def loadDefaultConfig_def)
  have s: "map trim (splitOn CHR '','' ''API_PORT,WEB_PORT'') = [''API_PORT'', ''WEB_PORT'']"
    by code_simp
  have "updateEnvironmentFiles envVarsExample indexTwo ''feature2'' ''/w'' emptyWorktree =
        runBatches (runBatchesOf envVarsExample ''feature2'' ''/w'' 2) emptyWorktree"
  proof (rule updateEnvironmentFiles_batches)
    show "\<forall>(k, b) \<in> set (portMappings envVarsExample). validName k"
      by (simp add: c example_names)
    show "\<forall>(k, t) \<in> set (containerNames envVarsExample). validName k"
      by (simp add: c)
    show "\<forall>u \<in> set (fileUpdates envVarsExample). updateType u = ''env_vars''"
      by (simp add: c)
    show "\<forall>u \<in> set (fileUpdates envVarsExample).
            \<forall>v \<in> set (map trim (splitOn CHR '','' (spec u))).
              getProperty (portMappings envVarsExample) v \<noteq> Inherited"
      unfolding c using s by (simp add: getProperty_def)
    show "indexTwo ''feature2'' = Inr 2" by (simp add: indexTwo_def)
  qed
  also have "\<dots> = Done envVarsExampleFiles"
  proof -
    let ?kvs = "[(''API_PORT'', ''3020''), (''WEB_PORT'', ''8100'')]"
    let ?c = "[LF] @ ''API_PORT=3020'' @ [LF] @ ''WEB_PORT=8100''"
    let ?fs1 = "emptyWorktree(''/w/config'' \<mapsto> Dir, ''/w/config/.env.local'' \<mapsto> File ?c)"
    have 1: "upsertFile ''/w/config/.env.local'' ?kvs emptyWorktree = Done ?fs1"
    proof -
      have "emptyWorktree ''/w/config/.env.local'' = None"
        "\<not> (\<exists>a \<in> set (ancestors ''/w/config/.env.local''). isFile emptyWorktree a)"
        "mkdirs emptyWorktree (ancestors ''/w/config/.env.local'')
           = emptyWorktree(''/w/config'' \<mapsto> Dir)"
        by (auto simp: emptyWorktree_def example_ancestors isFile_def mkdirs_def)
      then show ?thesis
        using envVarsExample_upserts by (simp add: upsertFile_None)
    qed
    have 2: "upsertFile ''/w/.env'' ?kvs ?fs1 = Done envVarsExampleFiles"
    proof -
      have "?fs1 ''/w/.env'' = None"
        "\<not> (\<exists>a \<in> set (ancestors ''/w/.env''). isFile ?fs1 a)"
        "(mkdirs ?fs1 (ancestors ''/w/.env''))(''/w/.env'' \<mapsto> File ?c) = envVarsExampleFiles"
        by (auto simp: emptyWorktree_def example_ancestors isFile_def mkdirs_def
            envVarsExampleFiles_def)
      then show ?thesis
        using envVarsExample_upserts by (simp add: upsertFile_None)
    qed
    show ?thesis
      unfolding envVarsExample_batches using 1 2 by simp
  qed
  finally show ?thesis .
qed

section \<open>The claims\<close>

subsection \<open>The \<open>env_vars\<close> strategy\<close>

text \<open>
  Claim C1, as the code has it. One turn of the loop of an \<open>env_vars\<close> rule, for a listed
  variable name \<open>v\<close>: when \<open>v\<close> is an identifier and the port mappings give it a base port
  that is a number other than \<open>0\<close>, every line of the content that starts with \<open>v=\<close> (not
  only the first) becomes \<open>v=(basePort + offset)\<close>, the other lines and all line terminators
  staying as they are in order, and when there is no such line, a line terminator and
  \<open>v=(basePort + offset)\<close> are added at the end; when \<open>v\<close> is not in the port mappings and is
  not the name of a property of \<open>Object.prototype\<close>, the content stays as it is. The rule as
  a whole: when the target is a regular file, or is missing with no regular file on the way
  to it, and the loop over the listed names returns a content, the rule writes that content
  to the target, having first created a missing target empty together with its missing
  directories, and changes no other path; when the loop throws, the rule throws and leaves
  the file system as it was, but for a missing target created empty; when the target is a
  directory, or is missing with a regular file on the way to it, the rule throws and
  changes nothing. The loop returns a content whenever the names of the port mappings are
  identifiers and no listed name is the name of a property of \<open>Object.prototype\<close>.
\<close>

theorem env_vars_upsert_every_matching_line:
  "(validName v \<and> map_of (portMappings cfg) v = Some b \<and> truthy b \<longrightarrow>
      envVarStep cfg off content v =
        Ok (if hasLine v content
            then mapLines (setLine v (toString (numPlus b off))) content
            else content @ LF # v @ ''='' @ toString (numPlus b off)))
   \<and> (map_of (portMappings cfg) v = None \<and> v \<notin> set inheritedKeys \<longrightarrow>
        envVarStep cfg off content v = Ok content)
   \<and> (writable fs target
        \<and> forEach (\<lambda>varName content. envVarStep cfg off content varName)
             (map trim (splitOn CHR '','' varSpec)) (fileContent fs target) = Ok content' \<longrightarrow>
        updateEnvVars cfg target varSpec off fs =
          Done ((if fs target = None then mkdirs fs (ancestors target) else fs)
                  (target \<mapsto> File content')))
   \<and> (writable fs target
        \<and> forEach (\<lambda>varName content. envVarStep cfg off content varName)
             (map trim (splitOn CHR '','' varSpec)) (fileContent fs target) = Throws e \<longrightarrow>
        updateEnvVars cfg target varSpec off fs =
          Threw e (if fs target = None
                   then (mkdirs fs (ancestors target))(target \<mapsto> File []) else fs))
   \<and> (\<not> writable fs target \<longrightarrow> updateEnvVars cfg target varSpec off fs = Threw IOError fs)
   \<and> ((\<forall>(k, b') \<in> set (portMappings cfg). validName k)
        \<and> (\<forall>x \<in> set (map trim (splitOn CHR '','' varSpec)). x \<notin> set inheritedKeys) \<longrightarrow>
        (\<exists>c. forEach (\<lambda>varName content. envVarStep cfg off content varName)
               (map trim (splitOn CHR '','' varSpec)) content = Ok c))"
proof -
  have "CHR ''$'' \<notin> set (toString (numPlus b off))"
    using toString_plain [of "numPlus b off"] by (simp add: plain_def)
  then have "validName v \<Longrightarrow> upsert v (toString (numPlus b off)) content =
     Ok (if hasLine v content then mapLines (setLine v (toString (numPlus b off))) content
         else content @ LF # v @ ''='' @ toString (numPlus b off))"
    using upsert_lines [OF validName_keyName, of v] by (simp add: upsert_valid)
  moreover have "\<exists>c. forEach (\<lambda>varName content. envVarStep cfg off content varName)
               (map trim (splitOn CHR '','' varSpec)) content = Ok c"
    if "\<forall>(k, b') \<in> set (portMappings cfg). validName k"
      "\<forall>x \<in> set (map trim (splitOn CHR '','' varSpec)). x \<notin> set inheritedKeys"
    using that by (rule forEach_envVarStep_Ok)
  ultimately show ?thesis
    by (simp add: envVarStep_def getProperty_def updateEnvVars_loop del: set_map)
qed

theorem env_vars_upsert_every_matching_line_witness:
  "envVarStep upsertExample 5 (''A=1'' @ [LF] @ ''B=2'') ''A'' = Ok (''A=105'' @ [LF] @ ''B=2'')
   \<and> envVarStep upsertExample 5 (''B=2'') ''A'' = Ok (''B=2'' @ [LF] @ ''A=105'')
   \<and> envVarStep upsertExample 5 (''A=1'' @ [LF] @ ''B=2'') ''C'' = Ok (''A=1'' @ [LF] @ ''B=2'')
   \<and> updateEnvVars upsertExample ''/w/logs/.env'' ''A, C'' 5 emptyWorktree
       = Done (emptyWorktree(''/w/logs'' \<mapsto> Dir, ''/w/logs/.env'' \<mapsto> File ([LF] @ ''A=105'')))
   \<and> updateEnvVars upsertExample ''/w/a.txt/.env'' ''A, C'' 5 oneFile = Threw IOError oneFile"
proof -
  have m: "map_of (portMappings upsertExample) ''A'' = Some (Num 100) \<and> truthy (Num 100)"
    "map_of (portMappings upsertExample) ''C'' = None"
    "''C'' \<notin> set inheritedKeys"
    by (simp_all add: upsertExample_def loadDefaultConfig_def inheritedKeys_def)
  have h: "hasLine ''A'' (''A=1'' @ [LF] @ ''B=2'')" "\<not> hasLine ''A'' ''B=2''"
    by (simp_all add: hasLine_def keyPrefix_def isLineTerminator_def LF_def CR_def)
  have t: "toString (numPlus (Num 100) 5) = ''105''"
    by (simp add: intToString_def decimal.simps digitChar_def)
  have l: "mapLines (setLine ''A'' ''105'') (''A=1'' @ [LF] @ ''B=2'') = ''A=105'' @ [LF] @ ''B=2''"
    by (simp add: mapLines_def setLine_def keyPrefix_def isLineTerminator_def LF_def CR_def)
  have s: "map trim (splitOn CHR '','' ''A, C'') = [''A'', ''C'']"
    by code_simp
  have w: "writable emptyWorktree ''/w/logs/.env''" "\<not> writable oneFile ''/w/a.txt/.env''"
    "fileContent emptyWorktree ''/w/logs/.env'' = []"
    by (simp_all add: writable_def emptyWorktree_def oneFile_def isFile_def example_ancestors
        fileContent_def)
  have f: "forEach (\<lambda>varName content. envVarStep upsertExample 5 content varName)
             (map trim (splitOn CHR '','' ''A, C'')) (fileContent emptyWorktree ''/w/logs/.env'')
           = Ok ([LF] @ ''A=105'')"
    using upsertExample_steps(3,4) unfolding s w(3) by simp
  have d: "(if emptyWorktree ''/w/logs/.env'' = None
            then mkdirs emptyWorktree (ancestors ''/w/logs/.env'') else emptyWorktree)
           = emptyWorktree(''/w/logs'' \<mapsto> Dir)"
    by (auto simp: emptyWorktree_def example_ancestors mkdirs_def)
  show ?thesis
    using env_vars_upsert_every_matching_line [where v = "''A''" and cfg = upsertExample
        and b = "Num 100" and off = 5 and content = "''A=1'' @ [LF] @ ''B=2''"
        and fs = emptyWorktree and target = "''/w/logs/.env''" and varSpec = "''A, C''"
        and content' = "[LF] @ ''A=105''"]
      env_vars_upsert_every_matching_line [where v = "''A''" and cfg = upsertExample
        and b = "Num 100" and off = 5 and content = "''B=2''"
        and fs = oneFile and target = "''/w/a.txt/.env''" and varSpec = "''A, C''"
        and content' = "[]"]
      env_vars_upsert_every_matching_line [where v = "''C''" and cfg = upsertExample
        and b = "Num 100" and off = 5 and content = "''A=1'' @ [LF] @ ''B=2''"
        and fs = oneFile and target = "''/w/a.txt/.env''" and varSpec = "''A, C''"
        and content' = "[]"]
      m h t l w f d example_names(1)
    by simp
qed

text \<open>
  The claim as stated fails on a file with two lines for the variable: both are replaced,
  where the claim has only the first replaced and the second left as \<open>A=2\<close>.
\<close>

theorem duplicate_lines_all_replaced:
  "updateEnvVars upsertExample ''/w/.env'' ''A'' 5
     (emptyWorktree(''/w/.env'' \<mapsto> File (''A=1'' @ [LF] @ ''A=2'')))
   = Done (emptyWorktree(''/w/.env'' \<mapsto> File (''A=105'' @ [LF] @ ''A=105'')))"
proof -
  have s: "map trim (splitOn CHR '','' ''A'') = [''A'']"
    by code_simp
  have f: "forEach (\<lambda>varName content. envVarStep upsertExample 5 content varName)
             (map trim (splitOn CHR '','' ''A'')) (''A=1'' @ [LF] @ ''A=2'')
           = Ok (''A=105'' @ [LF] @ ''A=105'')"
    using upsertExample_steps(2) unfolding s by simp
  have c: "fileContent (emptyWorktree(''/w/.env'' \<mapsto> File (''A=1'' @ [LF] @ ''A=2''))) ''/w/.env''
      = ''A=1'' @ [LF] @ ''A=2''"
    by (simp add: fileContent_def)
  show ?thesis
    unfolding updateEnvVars_loop c f
    by (simp add: writable_def isFile_def)
qed

subsection \<open>Running the orchestrator twice\<close>

text \<open>
  Claim C2, as the code has it. For a configuration whose file-update rules are all
  \<open>env_vars\<close> rules, whose port-mapping names and container names are identifiers, and whose
  container-name templates render, with the port offset \<open>0\<close>, to values without \<open>$\<close> and
  without line terminator: when a run of the orchestrator returns, a second run with the
  same configuration, worktree name and index on the files of the first run returns too and
  changes nothing.
\<close>

theorem env_vars_runs_idempotent:
  assumes "git name = Inr idx"
    and "\<forall>u \<in> set (fileUpdates cfg). updateType u = ''env_vars''"
    and "\<forall>(k, b) \<in> set (portMappings cfg). validName k"
    and "\<forall>(k, t) \<in> set (containerNames cfg).
           validName k \<and> (\<exists>r. substituteTemplate cfg t name idx 0 = Ok r \<and> plain r)"
    and "updateEnvironmentFiles cfg git name dir fs = Done fs1"
  shows "updateEnvironmentFiles cfg git name dir fs1 = Done fs1"
  using assms(3) assms(4) assms(2) assms(5) assms(1) by (rule steps_idempotent)

theorem env_vars_runs_idempotent_witness:
  "updateEnvironmentFiles envVarsExample indexTwo ''feature2'' ''/w'' emptyWorktree
     = Done envVarsExampleFiles
   \<and> updateEnvironmentFiles envVarsExample indexTwo ''feature2'' ''/w'' envVarsExampleFiles
     = Done envVarsExampleFiles"
proof -
  have g: "indexTwo ''feature2'' = Inr 2" by (simp add: indexTwo_def)
  have u: "\<forall>u \<in> set (fileUpdates envVarsExample). updateType u = ''env_vars''"
    by (simp add: envVarsExample_def loadDefaultConfig_def)
  have p: "\<forall>(k, b) \<in> set (portMappings envVarsExample). validName k"
    by (simp add: envVarsExample_def loadDefaultConfig_def example_names)
  have c: "\<forall>(k, t) \<in> set (containerNames envVarsExample).
           validName k \<and> (\<exists>r. substituteTemplate envVarsExample t ''feature2'' 2 0 = Ok r
                              \<and> plain r)"
    by (simp add: envVarsExample_def loadDefaultConfig_def)
  show ?thesis
    using env_vars_runs_idempotent [where git = indexTwo and name = "''feature2''",
        OF g u p c envVarsExample_run] envVarsExample_run
    by simp
qed

text \<open>
  The claim as stated fails for the other two strategies: a second run appends the payload
  of an \<open>append\<close> rule once more, and the \<open>replace\<close> rule that puts the worktree name after
  \<open>name: myapp\<close> matches its own output and puts it there again.
\<close>

theorem append_and_replace_not_idempotent:
  "updateEnvironmentFiles appendExample indexOne ''f'' ''/w'' emptyWorktree
     = Done (emptyWorktree(''/w/notes.txt'' \<mapsto> File (LF # ''for f'')))
   \<and> updateEnvironmentFiles appendExample indexOne ''f'' ''/w''
       (emptyWorktree(''/w/notes.txt'' \<mapsto> File (LF # ''for f'')))
     = Done (emptyWorktree(''/w/notes.txt'' \<mapsto> File (LF # ''for f'' @ LF # ''for f'')))
   \<and> updateEnvironmentFiles replaceExample indexOne ''f'' ''/w''
       (emptyWorktree(''/w/compose.yml'' \<mapsto> File ''name: myapp''))
     = Done (emptyWorktree(''/w/compose.yml'' \<mapsto> File ''name: myapp-f''))
   \<and> updateEnvironmentFiles replaceExample indexOne ''f'' ''/w''
       (emptyWorktree(''/w/compose.yml'' \<mapsto> File ''name: myapp-f''))
     = Done (emptyWorktree(''/w/compose.yml'' \<mapsto> File ''name: myapp-f-f''))"
proof -
  have fa: "fileUpdates appendExample =
       [\<lparr>filePath = ''notes.txt'', updateType = ''append'', spec = ''for {{WORKTREE_NAME}}'',
         searchPattern = None, replacement = None\<rparr>]"
    "portOffsetIncrement appendExample = 10" "containerNames appendExample = []"
    "portMappings appendExample = []"
    by (simp_all add: appendExample_def loadDefaultConfig_def)
  have fr: "fileUpdates replaceExample =
       [\<lparr>filePath = ''compose.yml'', updateType = ''replace'',
         spec = ''name: myapp-{{WORKTREE_NAME}}'', searchPattern = Some ''name: myapp'',
         replacement = Some ''name: myapp-{{WORKTREE_NAME}}''\<rparr>]"
    "portOffsetIncrement replaceExample = 10" "containerNames replaceExample = []"
    "portMappings replaceExample = []"
    by (simp_all add: replaceExample_def loadDefaultConfig_def)
  have "replaceAll (literal ''{{WORKTREE_INDEX}}'') (intToString 1)
          (replaceAll (literal ''{{WORKTREE_NAME}}'') ''f'' ''for {{WORKTREE_NAME}}'') = ''for f''"
    "replaceAll (literal ''{{WORKTREE_INDEX}}'') (intToString 1)
          (replaceAll (literal ''{{WORKTREE_NAME}}'') ''f'' ''name: myapp-{{WORKTREE_NAME}}'')
       = ''name: myapp-f''"
    by code_simp+
  then have a: "substituteTemplate appendExample ''for {{WORKTREE_NAME}}'' ''f'' 1 10 = Ok ''for f''"
    and r: "substituteTemplate replaceExample ''name: myapp-{{WORKTREE_NAME}}'' ''f'' 1 10
      = Ok ''name: myapp-f''"
    by (simp_all add: substituteTemplate_no_ports fa fr)
  have c: "RegExp ''name: myapp'' = Regex (literal ''name: myapp'')"
    by (simp add: RegExp_def syntaxChar_def BACKSLASH_def)
  have x: "replaceAll (literal ''name: myapp'') ''name: myapp-f'' ''name: myapp''
      = ''name: myapp-f''"
    "replaceAll (literal ''name: myapp'') ''name: myapp-f'' ''name: myapp-f''
      = ''name: myapp-f-f''"
    by code_simp+
  have d: "dirname ''/w/notes.txt'' = ''/w''"
    by (simp add: dirname_def example_ancestors)
  show ?thesis
    using a r c x
    by (simp add: fa fr updateEnvironmentFiles_def indexOne_def calculatePortOffset_def
        processFileUpdate_def replaceInFile_def appendFile_def upsertTables_def readFile_def
        writeFile_def pathExists_def attempt_def example_paths d emptyWorktree_def
        isDirectory_def Let_def)
qed

subsection \<open>Port offset\<close>

text \<open>
  Claim C3. For a worktree index \<open>idx \<ge> 0\<close> given by the index resolver and an increment
  \<open>> 0\<close>, the port offset is \<open>idx * increment\<close>, and it is \<open>0\<close> when the index is \<open>0\<close>;
  the computation returns a value: it adds no failure of its own.
\<close>

theorem offset_is_index_times_increment:
  assumes "git worktreeName = Inr idx" and "0 \<le> idx" and "0 < portOffsetIncrement cfg"
  shows "calculatePortOffset cfg git worktreeName = Inr (idx * portOffsetIncrement cfg)
         \<and> (idx = 0 \<longrightarrow> calculatePortOffset cfg git worktreeName = Inr 0)"
  using assms by (simp add: calculatePortOffset_def)

theorem offset_is_index_times_increment_witness:
  "calculatePortOffset (loadDefaultConfig\<lparr>portOffsetIncrement := 10\<rparr>) (\<lambda>n. Inr 2) ''feature2''
     = Inr 20
   \<and> calculatePortOffset (loadDefaultConfig\<lparr>portOffsetIncrement := 10\<rparr>) (\<lambda>n. Inr 0) ''main''
     = Inr 0"
  using offset_is_index_times_increment
          [of "\<lambda>n. Inr 2" "''feature2''" 2 "loadDefaultConfig\<lparr>portOffsetIncrement := 10\<rparr>"]
        offset_is_index_times_increment
          [of "\<lambda>n. Inr 0" "''main''" 0 "loadDefaultConfig\<lparr>portOffsetIncrement := 10\<rparr>"]
  by simp

subsection \<open>Template substitution\<close>

text \<open>
  Claim C4, as the code has it. When the names of the port mappings are identifiers,
  \<open>substituteTemplate\<close> returns a text for every template, and a template in which none of
  the placeholders of the worktree name, the worktree index and the port variables occurs
  is returned as it is, whatever other \<open>{{...}}\<close> tokens it has. When moreover the worktree
  name contains no \<open>$\<close>, the text returned is the specification's \<open>render\<close>: the worktree
  name first, then the worktree index, then the port variables in table order, each
  placeholder replaced at every occurrence.
\<close>

theorem render_fixed_order:
  "((\<forall>(v, b) \<in> set (portMappings cfg). validName v) \<and> CHR ''$'' \<notin> set worktreeName \<longrightarrow>
      substituteTemplate cfg template worktreeName worktreeIndex portOffset =
        Ok (renderSpec template worktreeName worktreeIndex portOffset (portMappings cfg)))
   \<and> ((\<forall>(v, b) \<in> set (portMappings cfg). validName v)
        \<and> \<not> sublist ''{{WORKTREE_NAME}}'' template
        \<and> \<not> sublist ''{{WORKTREE_INDEX}}'' template
        \<and> (\<forall>(v, b) \<in> set (portMappings cfg). \<not> sublist (''{{'' @ v @ ''}}'') template) \<longrightarrow>
        substituteTemplate cfg template worktreeName worktreeIndex portOffset = Ok template)
   \<and> ((\<forall>(v, b) \<in> set (portMappings cfg). validName v) \<longrightarrow>
        (\<exists>r. substituteTemplate cfg template worktreeName worktreeIndex portOffset = Ok r))"
proof -
  have 1: "substituteTemplate cfg template worktreeName worktreeIndex portOffset =
        Ok (renderSpec template worktreeName worktreeIndex portOffset (portMappings cfg))"
    if "\<forall>(v, b) \<in> set (portMappings cfg). validName v" "CHR ''$'' \<notin> set worktreeName"
    using that by (simp add: substituteTemplate_valid renderLiteral_spec)
  have 2: "substituteTemplate cfg template worktreeName worktreeIndex portOffset = Ok template"
    if "\<forall>(v, b) \<in> set (portMappings cfg). validName v"
      "\<not> sublist ''{{WORKTREE_NAME}}'' template" "\<not> sublist ''{{WORKTREE_INDEX}}'' template"
      "\<forall>(v, b) \<in> set (portMappings cfg). \<not> sublist (''{{'' @ v @ ''}}'') template"
    using that(1) renderLiteral_absent [OF that(2,3,4)]
    by (simp add: substituteTemplate_valid)
  have 3: "\<exists>r. substituteTemplate cfg template worktreeName worktreeIndex portOffset = Ok r"
    if "\<forall>(v, b) \<in> set (portMappings cfg). validName v"
    using that by (simp add: substituteTemplate_valid)
  show ?thesis
    using 1 2 3 by blast
qed

theorem render_fixed_order_witness:
  "substituteTemplate templateExample
     ''Worktree: {{WORKTREE_NAME}}, Index: {{WORKTREE_INDEX}}, API: {{API_PORT}}, DB: {{DB_PORT}}''
     ''test-branch'' 2 200
   = Ok ''Worktree: test-branch, Index: 2, API: 3200, DB: {{DB_PORT}}''
   \<and> substituteTemplate templateExample ''{{FOO}}-{{worktree_name}}'' ''a$&b'' 2 200
   = Ok ''{{FOO}}-{{worktree_name}}''"
proof -
  have pm: "portMappings templateExample = [(''API_PORT'', Num 3000)]"
    by (simp add: templateExample_def loadDefaultConfig_def)
  have n: "CHR ''$'' \<notin> set ''test-branch''" by simp
  have v: "\<forall>(v, b) \<in> set (portMappings templateExample). validName v"
    by (simp add: pm example_names)
  have a: "\<not> sublist ''{{WORKTREE_NAME}}'' ''{{FOO}}-{{worktree_name}}''"
    "\<not> sublist ''{{WORKTREE_INDEX}}'' ''{{FOO}}-{{worktree_name}}''"
    "\<not> sublist ''{{API_PORT}}'' ''{{FOO}}-{{worktree_name}}''"
    by (simp_all add: sublist_Cons_right)
  show ?thesis
    using render_fixed_order [where cfg = templateExample and worktreeName = "''test-branch''"
        and worktreeIndex = 2 and portOffset = 200 and template =
        "''Worktree: {{WORKTREE_NAME}}, Index: {{WORKTREE_INDEX}}, API: {{API_PORT}}, DB: {{DB_PORT}}''",
        THEN conjunct1]
      render_fixed_order [where cfg = templateExample and worktreeName = "''a$&b''"
        and worktreeIndex = 2 and portOffset = 200 and template = "''{{FOO}}-{{worktree_name}}''",
        THEN conjunct2, THEN conjunct1]
      templateExample_render a n v
    by (simp add: pm)
qed

text \<open>
  The claim as stated fails in two ways. The worktree name is used as a replacement pattern
  of \<open>String.replace\<close>: in the name \<open>a$&b\<close> the \<open>$&\<close> stands for the matched placeholder, so
  the name is not substituted literally. And a port-mapping name is interpolated into a
  regular expression: for the name \<open>A(\<close> the expression does not compile and
  \<open>substituteTemplate\<close> throws.
\<close>

theorem dollar_name_expanded_and_port_name_throws:
  "substituteTemplate loadDefaultConfig ''x-{{WORKTREE_NAME}}'' ''a$&b'' 0 0
     = Ok ''x-a{{WORKTREE_NAME}}b''
   \<and> renderSpec ''x-{{WORKTREE_NAME}}'' ''a$&b'' 0 0 (portMappings loadDefaultConfig)
     = ''x-a$&b''
   \<and> substituteTemplate unclosedPortExample ''x'' ''f'' 0 0 = Throws SyntaxError"
proof -
  have 1: "replaceAll (literal ''{{WORKTREE_NAME}}'') ''a$&b'' ''x-{{WORKTREE_NAME}}''
      = ''x-a{{WORKTREE_NAME}}b''"
    by code_simp
  have 2: "replaceAll (literal ''{{WORKTREE_INDEX}}'') (intToString 0) ''x-a{{WORKTREE_NAME}}b''
      = ''x-a{{WORKTREE_NAME}}b''"
    by code_simp
  have 3: "renderSpec ''x-{{WORKTREE_NAME}}'' ''a$&b'' 0 0 [] = ''x-a$&b''"
    by code_simp
  have 4: "placeholderRegExp ''A('' = RegexSyntaxError"
    by (simp add: placeholderRegExp_def interpolated_def syntaxChar_def unclosedGroup_def
        BACKSLASH_def)
  have 5: "entries [(''A('', Num 1)] = [(''A('', Num 1)]"
    by (simp add: entries_def arrayIndex_def isDigit_def)
  have 6: "replaceAll (literal ''{{WORKTREE_INDEX}}'') (intToString 0)
             (replaceAll (literal ''{{WORKTREE_NAME}}'') ''f'' ''x'') = ''x''"
    by code_simp
  have a: "substituteTemplate loadDefaultConfig ''x-{{WORKTREE_NAME}}'' ''a$&b'' 0 0
     = Ok ''x-a{{WORKTREE_NAME}}b''"
    using 1 2 by (simp add: substituteTemplate_no_ports loadDefaultConfig_def)
  have b: "substituteTemplate unclosedPortExample ''x'' ''f'' 0 0 = Throws SyntaxError"
    unfolding substituteTemplate_def Let_def 6
    by (simp add: unclosedPortExample_def 5 substitutePort_def 4)
  show ?thesis
    using a b 3 by (simp add: loadDefaultConfig_def)
qed

subsection \<open>Missing target files\<close>

text \<open>
  Claim C5, as the code has it. For a rule whose target does not exist: a \<open>replace\<close> rule
  returns without an error and leaves the file system as it is; an \<open>env_vars\<close> rule creates
  the target together with its missing directories and writes the content of its loop to
  it, when no regular file lies on the way to the target and the loop returns a content;
  it throws with the target created empty when the loop throws, and throws with nothing
  changed when a regular file lies on the way; an \<open>append\<close> rule whose payload renders
  creates the target, holding a line terminator and the payload, when the directory of the
  target exists, and throws with nothing changed when that directory does not exist or when
  the rendering of the payload throws. The loop returns a content and the payload renders
  whenever the names of the port mappings are identifiers and no listed variable is the
  name of a property of \<open>Object.prototype\<close>.
\<close>

theorem missing_file_asymmetry:
  assumes "fs (pathJoin dir (filePath u)) = None"
  shows "(updateType u = ''replace'' \<longrightarrow>
            processFileUpdate cfg git u name dir idx off fs = Done fs)
       \<and> (updateType u = ''env_vars''
            \<and> (\<forall>a \<in> set (ancestors (pathJoin dir (filePath u))). \<not> isFile fs a)
            \<and> forEach (\<lambda>varName content. envVarStep cfg off content varName)
                 (map trim (splitOn CHR '','' (spec u))) [] = Ok content \<longrightarrow>
            processFileUpdate cfg git u name dir idx off fs =
              Done ((mkdirs fs (ancestors (pathJoin dir (filePath u))))
                      (pathJoin dir (filePath u) \<mapsto> File content)))
       \<and> (updateType u = ''env_vars''
            \<and> (\<forall>a \<in> set (ancestors (pathJoin dir (filePath u))). \<not> isFile fs a)
            \<and> forEach (\<lambda>varName content. envVarStep cfg off content varName)
                 (map trim (splitOn CHR '','' (spec u))) [] = Throws e \<longrightarrow>
            processFileUpdate cfg git u name dir idx off fs =
              Threw e ((mkdirs fs (ancestors (pathJoin dir (filePath u))))
                         (pathJoin dir (filePath u) \<mapsto> File [])))
       \<and> (updateType u = ''env_vars''
            \<and> (\<exists>a \<in> set (ancestors (pathJoin dir (filePath u))). isFile fs a) \<longrightarrow>
            processFileUpdate cfg git u name dir idx off fs = Threw IOError fs)
       \<and> (updateType u = ''append''
            \<and> substituteTemplate cfg (spec u) name idx off = Ok rendered
            \<and> isDirectory fs (dirname (pathJoin dir (filePath u))) \<longrightarrow>
            processFileUpdate cfg git u name dir idx off fs =
              Done (fs(pathJoin dir (filePath u) \<mapsto> File (LF # rendered))))
       \<and> (updateType u = ''append''
            \<and> substituteTemplate cfg (spec u) name idx off = Ok rendered
            \<and> \<not> isDirectory fs (dirname (pathJoin dir (filePath u))) \<longrightarrow>
            processFileUpdate cfg git u name dir idx off fs = Threw IOError fs)
       \<and> (updateType u = ''append''
            \<and> substituteTemplate cfg (spec u) name idx off = Throws e \<longrightarrow>
            processFileUpdate cfg git u name dir idx off fs = Threw e fs)
       \<and> ((\<forall>(k, b) \<in> set (portMappings cfg). validName k)
            \<and> (\<forall>v \<in> set (map trim (splitOn CHR '','' (spec u))). v \<notin> set inheritedKeys) \<longrightarrow>
            (\<exists>c. forEach (\<lambda>varName content. envVarStep cfg off content varName)
                   (map trim (splitOn CHR '','' (spec u))) [] = Ok c)
            \<and> (\<exists>r. substituteTemplate cfg (spec u) name idx off = Ok r))"
proof -
  let ?p = "pathJoin dir (filePath u)"
  have 1: "updateType u = ''replace'' \<Longrightarrow> processFileUpdate cfg git u name dir idx off fs = Done fs"
    using assms by (simp add: processFileUpdate_def replaceInFile_def pathExists_def Let_def)
  have c: "fileContent fs ?p = []" using assms by (simp add: fileContent_def)
  have 2: "processFileUpdate cfg git u name dir idx off fs =
             Done ((mkdirs fs (ancestors ?p))(?p \<mapsto> File content))"
    if "updateType u = ''env_vars''" "\<forall>a \<in> set (ancestors ?p). \<not> isFile fs a"
      "forEach (\<lambda>varName content. envVarStep cfg off content varName)
         (map trim (splitOn CHR '','' (spec u))) [] = Ok content"
    using that assms
    by (simp add: processFileUpdate_def updateEnvVars_loop writable_def c Let_def)
  have 7: "processFileUpdate cfg git u name dir idx off fs =
             Threw e ((mkdirs fs (ancestors ?p))(?p \<mapsto> File []))"
    if "updateType u = ''env_vars''" "\<forall>a \<in> set (ancestors ?p). \<not> isFile fs a"
      "forEach (\<lambda>varName content. envVarStep cfg off content varName)
         (map trim (splitOn CHR '','' (spec u))) [] = Throws e"
    using that assms
    by (simp add: processFileUpdate_def updateEnvVars_loop writable_def c Let_def)
  have 8: "processFileUpdate cfg git u name dir idx off fs = Threw e fs"
    if "updateType u = ''append''" "substituteTemplate cfg (spec u) name idx off = Throws e"
    using that by (simp add: processFileUpdate_def attempt_def Let_def)
  have 3: "processFileUpdate cfg git u name dir idx off fs = Threw IOError fs"
    if "updateType u = ''env_vars''" "\<exists>a \<in> set (ancestors ?p). isFile fs a"
    using that assms
    by (auto simp: processFileUpdate_def updateEnvVars_loop writable_def Let_def isFile_def)
  have 4: "processFileUpdate cfg git u name dir idx off fs =
             (if isDirectory fs (dirname ?p) then Done (fs(?p \<mapsto> File (LF # rendered)))
              else Threw IOError fs)"
    if "updateType u = ''append''" "substituteTemplate cfg (spec u) name idx off = Ok rendered"
    using that assms appendFile_missing [of fs "pathJoin dir (filePath u)" "LF # rendered"]
    by (simp add: processFileUpdate_def attempt_def Let_def)
  have 5: "\<exists>c. forEach (\<lambda>varName content. envVarStep cfg off content varName)
                   (map trim (splitOn CHR '','' (spec u))) [] = Ok c"
    if pm: "\<forall>(k, b) \<in> set (portMappings cfg). validName k"
      and "\<forall>v \<in> set (map trim (splitOn CHR '','' (spec u))). v \<notin> set inheritedKeys"
    using that by (rule forEach_envVarStep_Ok)
  have 6: "\<exists>r. substituteTemplate cfg (spec u) name idx off = Ok r"
    if pm: "\<forall>(k, b) \<in> set (portMappings cfg). validName k"
    by (simp add: substituteTemplate_valid [OF pm])
  show ?thesis
    using 1 2 3 4 5 6 7 8 by (simp del: set_map)
qed

theorem missing_file_asymmetry_witness:
  "processFileUpdate loadDefaultConfig indexOne (hd badBatch) ''f'' ''/w'' 1 10 emptyWorktree
     = Done emptyWorktree
   \<and> processFileUpdate upsertExample indexOne nestedEnvVars ''f'' ''/w'' 1 5 emptyWorktree
     = Done (emptyWorktree(''/w/logs'' \<mapsto> Dir, ''/w/logs/.env'' \<mapsto> File ([LF] @ ''A=105'')))
   \<and> processFileUpdate upsertExample indexOne nestedEnvVars ''f'' ''/w/a.txt'' 1 5 oneFile
     = Threw IOError oneFile
   \<and> processFileUpdate loadDefaultConfig indexOne (hd (tl badBatch)) ''f'' ''/w'' 1 10
       emptyWorktree
     = Done (emptyWorktree(''/w/b.txt'' \<mapsto> File (LF # ''hello'')))
   \<and> processFileUpdate loadDefaultConfig indexOne nestedAppend ''f'' ''/w'' 1 10 emptyWorktree
     = Threw IOError emptyWorktree"
proof -
  have p: "pathJoin ''/w/a.txt'' ''logs/.env'' = ''/w/a.txt/logs/.env''"
    by (simp add: pathJoin_def normalize_def)
  have a: "ancestors ''/w/a.txt/logs/.env'' = [''/w'', ''/w/a.txt'', ''/w/a.txt/logs'']"
    by (simp add: ancestors_def)
  have s: "map trim (splitOn CHR '','' ''A'') = [''A'']"
    by code_simp
  have sp: "spec nestedEnvVars = ''A''"
    by (simp add: nestedEnvVars_def)
  have f: "forEach (\<lambda>varName content. envVarStep upsertExample 5 content varName)
             (map trim (splitOn CHR '','' (spec nestedEnvVars))) [] = Ok ([LF] @ ''A=105'')"
    using upsertExample_steps(3) unfolding sp s by simp
  have d: "mkdirs emptyWorktree (ancestors ''/w/logs/.env'') = emptyWorktree(''/w/logs'' \<mapsto> Dir)"
    by (auto simp: emptyWorktree_def example_ancestors mkdirs_def)
  have e: "emptyWorktree ''/w/logs/.env'' = None" "emptyWorktree ''/w/a.txt'' = None"
    "emptyWorktree ''/w/b.txt'' = None" "emptyWorktree ''/w/logs/notes.txt'' = None"
    "oneFile ''/w/a.txt/logs/.env'' = None" "isFile oneFile ''/w/a.txt''"
    "\<not> isFile emptyWorktree ''/w''" "\<not> isFile emptyWorktree ''/w/logs''"
    "isDirectory emptyWorktree ''/w''" "\<not> isDirectory emptyWorktree ''/w/logs''"
    by (simp_all add: emptyWorktree_def oneFile_def isFile_def isDirectory_def)
  have n: "dirname ''/w/b.txt'' = ''/w''" "dirname ''/w/logs/notes.txt'' = ''/w/logs''"
    by (simp_all add: dirname_def example_ancestors)
  show ?thesis
    using
      missing_file_asymmetry [where fs = emptyWorktree and dir = "''/w''" and u = "hd badBatch"
        and cfg = loadDefaultConfig and git = indexOne and name = "''f''" and idx = 1
        and off = 10 and content = "[]" and rendered = "[]"]
      missing_file_asymmetry [where fs = emptyWorktree and dir = "''/w''" and u = nestedEnvVars
        and cfg = upsertExample and git = indexOne and name = "''f''" and idx = 1
        and off = 5 and content = "[LF] @ ''A=105''" and rendered = "[]"]
      missing_file_asymmetry [where fs = oneFile and dir = "''/w/a.txt''" and u = nestedEnvVars
        and cfg = upsertExample and git = indexOne and name = "''f''" and idx = 1
        and off = 5 and content = "[]" and rendered = "[]"]
      missing_file_asymmetry [where fs = emptyWorktree and dir = "''/w''"
        and u = "hd (tl badBatch)" and cfg = loadDefaultConfig and git = indexOne
        and name = "''f''" and idx = 1 and off = 10 and content = "[]"
        and rendered = "''hello''"]
      missing_file_asymmetry [where fs = emptyWorktree and dir = "''/w''" and u = nestedAppend
        and cfg = loadDefaultConfig and git = indexOne and name = "''f''" and idx = 1
        and off = 10 and content = "[]" and rendered = "''hello''"]
      f d e n hello_render
    by (simp add: badBatch_def nestedEnvVars_def nestedAppend_def example_paths
        example_ancestors p a)
qed

text \<open>
  The claim as stated fails for an \<open>append\<close> rule whose target lies in a directory that
  does not exist: \<open>fs.appendFile\<close> makes no directories, the rule throws and no file is
  created.
\<close>

theorem append_needs_parent_directory:
  "processFileUpdate loadDefaultConfig indexOne nestedAppend ''f'' ''/w'' 1 10 emptyWorktree
     = Threw IOError emptyWorktree
   \<and> emptyWorktree ''/w/logs/notes.txt'' = None"
  by (simp add: processFileUpdate_def nestedAppend_def example_paths hello_render attempt_def
      appendFile_def emptyWorktree_def dirname_def example_ancestors isDirectory_def Let_def)

subsection \<open>Container names\<close>

text \<open>
  Claim C6, as the code has it. Let the names of the port mappings and of the container
  names be identifiers, the container names distinct keys, and every container-name
  template render, with the worktree name, the worktree index and the port offset \<open>0\<close>, to
  a value without \<open>$\<close> and without line terminator. Then after a run of the orchestrator
  that returns, the primary environment file has the line \<open>VARNAME=value\<close> for every
  configured container name, every line of it that starts with \<open>VARNAME=\<close> is that line,
  and the value is the template with the worktree name, the worktree index and, for every
  port placeholder, the base port itself; the rendering does not depend on the increment.
\<close>

theorem container_names_not_port_shifted:
  assumes "git name = Inr idx"
    and "\<forall>(k, b) \<in> set (portMappings cfg). validName k"
    and "\<forall>(k, t') \<in> set (containerNames cfg).
           validName k \<and> (\<exists>r. substituteTemplate cfg t' name idx 0 = Ok r \<and> plain r)"
    and "distinct (map fst (containerNames cfg))"
    and "(v, t) \<in> set (containerNames cfg)"
    and "updateEnvironmentFiles cfg git name dir fs = Done fs'"
  shows "(\<exists>r. substituteTemplate cfg t name idx 0 = Ok r
            \<and> v @ ''='' @ r \<in> set (linesOf (fileContent fs' (pathJoin dir ''.env'')))
            \<and> (\<forall>l \<in> set (linesOf (fileContent fs' (pathJoin dir ''.env''))).
                  keyPrefix v l \<longrightarrow> l = v @ ''='' @ r)
            \<and> r = foldl (\<lambda>result (portVar, basePort).
                           replaceAll (literal (''{{'' @ portVar @ ''}}'')) (toString basePort)
                             result)
                    (replaceAll (literal ''{{WORKTREE_INDEX}}'') (intToString idx)
                       (replaceAll (literal ''{{WORKTREE_NAME}}'') name t))
                    (portMappings cfg))
       \<and> substituteTemplate (cfg\<lparr>portOffsetIncrement := inc\<rparr>) t name idx 0 =
           substituteTemplate cfg t name idx 0"
proof -
  let ?r = "\<lambda>t. renderLiteral (portMappings cfg) t name idx 0"
  let ?kvs = "map (\<lambda>(varName, template). (varName, ?r template)) (containerNames cfg)"
  let ?p = "pathJoin dir ''.env''"
  have render: "substituteTemplate cfg t' name idx 0 = Ok (?r t')" for t'
    using assms(2) by (rule substituteTemplate_valid)
  have cn: "\<forall>(k, t') \<in> set (containerNames cfg). validName k"
    using assms(3) by auto
  have "\<forall>(k, y) \<in> set ?kvs. keyName k \<and> plain y"
    using assms(3) validName_keyName by (auto simp: render)
  moreover have "distinct (map fst ?kvs)"
    using assms(4) by (simp add: comp_def case_prod_unfold)
  moreover have "(v, ?r t) \<in> set ?kvs"
    using assms(5) by force
  ultimately have exact:
    "v @ ''='' @ ?r t \<in> set (linesOf (upsertAll ?kvs c))"
    "\<forall>l \<in> set (linesOf (upsertAll ?kvs c)). keyPrefix v l \<longrightarrow> l = v @ ''='' @ ?r t" for c
    using upsertAll_line [of ?kvs v "?r t" c] upsertAll_exact(2) [of ?kvs v "?r t" c] by blast+
  have "containerNames cfg \<noteq> []" using assms(5) by auto
  then obtain fs2 where
    "updateContainerNames cfg dir (containerNames cfg) name idx fs2 = Done fs'"
    using updateEnvironmentFiles_last [OF assms(6) assms(1)] by blast
  then have "upsertFile ?p ?kvs fs2 = Done fs'"
    using updateContainerNames_upsertFile [OF assms(2) cn] by simp
  then have "fs' ?p = Some (File (upsertAll ?kvs (fileContent fs2 ?p)))"
    by (rule upsertFile_Done(1))
  then have "fileContent fs' ?p = upsertAll ?kvs (fileContent fs2 ?p)"
    by (simp add: fileContent_def)
  then have "v @ ''='' @ ?r t \<in> set (linesOf (fileContent fs' ?p))"
    "\<forall>l \<in> set (linesOf (fileContent fs' ?p)). keyPrefix v l \<longrightarrow> l = v @ ''='' @ ?r t"
    using exact by simp_all
  then show ?thesis
    using render [of t] renderLiteral_zero [of "portMappings cfg" t name idx]
    by (simp add: substituteTemplate_increment)
qed

theorem container_names_not_port_shifted_witness:
  "\<exists>fs'. updateEnvironmentFiles containerExample indexFive ''feature1'' ''/w'' emptyWorktree
           = Done fs'
      \<and> ''DB_CONTAINER=myapp-feature1-db'' \<in> set (linesOf (fileContent fs' ''/w/.env''))
      \<and> ''API_CONTAINER=api-5-3000'' \<in> set (linesOf (fileContent fs' ''/w/.env''))"
proof -
  have g: "indexFive ''feature1'' = Inr 5" by (simp add: indexFive_def)
  have pm: "portMappings containerExample = [(''API_PORT'', Num 3000)]"
    by (simp add: containerExample_def loadDefaultConfig_def)
  have cn: "containerNames containerExample =
      [(''DB_CONTAINER'', ''myapp-{{WORKTREE_NAME}}-db''),
       (''API_CONTAINER'', ''api-{{WORKTREE_INDEX}}-{{API_PORT}}'')]"
    by (simp add: containerExample_def loadDefaultConfig_def)
  have fu: "fileUpdates containerExample = []"
    by (simp add: containerExample_def loadDefaultConfig_def)
  have p: "\<forall>(k, b) \<in> set (portMappings containerExample). validName k"
    by (simp add: pm example_names)
  have v: "\<forall>(k, t') \<in> set (containerNames containerExample).
           validName k \<and> (\<exists>r. substituteTemplate containerExample t' ''feature1'' 5 0 = Ok r
                              \<and> plain r)"
    by (simp add: cn containerExample_render example_names plain_def isLineTerminator_def
        LF_def CR_def)
  have d: "distinct (map fst (containerNames containerExample))"
    by (simp add: cn)
  have m: "(''DB_CONTAINER'', ''myapp-{{WORKTREE_NAME}}-db'') \<in> set (containerNames containerExample)"
    "(''API_CONTAINER'', ''api-{{WORKTREE_INDEX}}-{{API_PORT}}'')
       \<in> set (containerNames containerExample)"
    by (simp_all add: cn)
  have k: "\<forall>(k, t) \<in> set (containerNames containerExample). validName k"
    using v by auto
  have "updateEnvironmentFiles containerExample indexFive ''feature1'' ''/w'' emptyWorktree =
        runBatches (runBatchesOf containerExample ''feature1'' ''/w'' 5) emptyWorktree"
    using p k _ _ g by (rule updateEnvironmentFiles_batches) (simp_all add: fu)
  moreover have "\<forall>b \<in> set (runBatchesOf containerExample ''feature1'' ''/w'' 5). fst b = ''/w/.env''"
    by (auto simp: runBatchesOf_def fu tableBatches_def example_paths)
  moreover have "writable emptyWorktree ''/w/.env''"
    by (simp add: writable_def emptyWorktree_def isFile_def example_ancestors)
  ultimately obtain fs' where
    r: "updateEnvironmentFiles containerExample indexFive ''feature1'' ''/w'' emptyWorktree = Done fs'"
    using runBatches_one_path by metis
  show ?thesis
    using container_names_not_port_shifted [OF g p v d m(1) r, THEN conjunct1]
      container_names_not_port_shifted [OF g p v d m(2) r, THEN conjunct1] r
    by (auto simp: containerExample_render example_paths)
qed

text \<open>
  The claim as stated fails for a rendered value with \<open>$\<close>: when the file already has a
  line for the variable, the value is used as a replacement pattern of \<open>String.replace\<close>,
  so for the template \<open>app$$-{{WORKTREE_NAME}}\<close> the line written is \<open>C=app$-f\<close>, not the
  rendered \<open>C=app$$-f\<close>.
\<close>

theorem dollar_in_container_template:
  "substituteTemplate dollarContainerExample ''app$$-{{WORKTREE_NAME}}'' ''f'' 1 0
     = Ok ''app$$-f''
   \<and> updateEnvironmentFiles dollarContainerExample indexOne ''f'' ''/w'' dollarContainerFiles
     = Done (dollarContainerFiles(''/w/.env'' \<mapsto> File ''C=app$-f''))"
proof -
  have c: "portMappings dollarContainerExample = []" "fileUpdates dollarContainerExample = []"
    "containerNames dollarContainerExample = [(''C'', ''app$$-{{WORKTREE_NAME}}'')]"
    "portOffsetIncrement dollarContainerExample = 10"
    by (simp_all add: dollarContainerExample_def loadDefaultConfig_def)
  have "replaceAll (literal ''{{WORKTREE_INDEX}}'') (intToString 1)
          (replaceAll (literal ''{{WORKTREE_NAME}}'') ''f'' ''app$$-{{WORKTREE_NAME}}'')
        = ''app$$-f''"
    by code_simp
  then have r: "substituteTemplate dollarContainerExample ''app$$-{{WORKTREE_NAME}}'' ''f'' 1 0
     = Ok ''app$$-f''"
    by (simp add: substituteTemplate_no_ports c)
  have "upsertWith (lineRegex ''C'') ''C'' ''app$$-f'' ''C=old'' = ''C=app$-f''"
    by code_simp
  then have u: "upsert ''C'' ''app$$-f'' ''C=old'' = Ok ''C=app$-f''"
    by (simp add: upsert_valid [OF example_names(2)] upsertLine_def)
  have e: "entries [(''C'', ''app$$-{{WORKTREE_NAME}}'')] = [(''C'', ''app$$-{{WORKTREE_NAME}}'')]"
    by (simp add: entries_def arrayIndex_def isDigit_def)
  have "updateContainerNames dollarContainerExample ''/w''
          [(''C'', ''app$$-{{WORKTREE_NAME}}'')] ''f'' 1 dollarContainerFiles
        = Done (dollarContainerFiles(''/w/.env'' \<mapsto> File ''C=app$-f''))"
    unfolding updateContainerNames_def Let_def e example_paths
    using r u
    by (simp add: dollarContainerFiles_def pathExists_def attempt_def readFile_def writeFile_def)
  then show ?thesis
    using r
    by (simp add: updateEnvironmentFiles_def indexOne_def calculatePortOffset_def c
        upsertTables_def)
qed

subsection \<open>A rule that throws\<close>

text \<open>
  Claim C7, as the code has it. No exception is caught while the rules are processed. A
  \<open>replace\<close> rule whose target is a regular file throws a \<open>TypeError\<close> when its replacement
  is missing and a \<open>SyntaxError\<close> when its search pattern does not compile, and a \<open>replace\<close>
  rule whose target is a directory throws the error of reading it; the batch ends there: the
  rules before it have been applied, the rules after it are not. A \<open>replace\<close> rule whose
  target does not exist does nothing, malformed or not, and the rules after it are applied.
\<close>

theorem failing_rule_aborts_batch:
  assumes "updateType u = ''replace''"
    and "git name = Inr i"
    and "processFileUpdates cfg git us name dir idx off fs = Done fs1"
  shows "(isFile fs1 (pathJoin dir (filePath u)) \<and> replacement u = None \<longrightarrow>
            processFileUpdates cfg git (us @ u # rest) name dir idx off fs = Threw TypeError fs1)
       \<and> (isFile fs1 (pathJoin dir (filePath u)) \<and> replacement u \<noteq> None
            \<and> notCompiling (searchPattern u) \<longrightarrow>
            processFileUpdates cfg git (us @ u # rest) name dir idx off fs = Threw SyntaxError fs1)
       \<and> (fs1 (pathJoin dir (filePath u)) = Some Dir \<longrightarrow>
            processFileUpdates cfg git (us @ u # rest) name dir idx off fs = Threw IOError fs1)
       \<and> (fs1 (pathJoin dir (filePath u)) = None \<longrightarrow>
            processFileUpdates cfg git (us @ u # rest) name dir idx off fs =
            processFileUpdates cfg git rest name dir idx off fs1)"
  using assms(1,3)
    replaceInFile_throws [where git = git and name = name, OF assms(2),
      of fs1 "pathJoin dir (filePath u)"]
  by (simp add: processFileUpdates_append processFileUpdate_def Let_def)

theorem failing_rule_aborts_batch_witness:
  "processFileUpdates loadDefaultConfig indexOne badBatch ''f'' ''/w'' 1 10 oneFile
      = Threw TypeError oneFile
   \<and> processFileUpdates loadDefaultConfig indexOne badRegexBatch ''f'' ''/w'' 1 10 oneFile
      = Threw SyntaxError oneFile
   \<and> processFileUpdates loadDefaultConfig indexOne badBatch ''f'' ''/w'' 1 10 emptyWorktree
      = Done (emptyWorktree(''/w/b.txt'' \<mapsto> File (LF # ''hello'')))"
proof -
  have n: "notCompiling (searchPattern (hd badRegexBatch))"
    by (simp add: badRegexBatch_def notCompiling_def RegExp_def syntaxChar_def)
  have a: "processFileUpdates loadDefaultConfig indexOne (tl badBatch) ''f'' ''/w'' 1 10
             emptyWorktree
      = Done (emptyWorktree(''/w/b.txt'' \<mapsto> File (LF # ''hello'')))"
    by (simp add: badBatch_def processFileUpdate_def appendFile_def example_paths hello_render
        attempt_def emptyWorktree_def dirname_def example_ancestors isDirectory_def Let_def)
  show ?thesis
    using failing_rule_aborts_batch [where u = "hd badBatch" and git = indexOne and name = "''f''"
        and i = 1 and cfg = loadDefaultConfig and us = "[]" and dir = "''/w''" and idx = 1
        and off = 10 and fs = oneFile and ?fs1.0 = oneFile and rest = "tl badBatch"]
      failing_rule_aborts_batch [where u = "hd badRegexBatch" and git = indexOne
        and name = "''f''" and i = 1 and cfg = loadDefaultConfig and us = "[]" and dir = "''/w''"
        and idx = 1 and off = 10 and fs = oneFile and ?fs1.0 = oneFile
        and rest = "tl badRegexBatch"]
      failing_rule_aborts_batch [where u = "hd badBatch" and git = indexOne and name = "''f''"
        and i = 1 and cfg = loadDefaultConfig and us = "[]" and dir = "''/w''" and idx = 1
        and off = 10 and fs = emptyWorktree and ?fs1.0 = emptyWorktree and rest = "tl badBatch"]
      n a
    by (simp add: badBatch_def badRegexBatch_def oneFile_def emptyWorktree_def example_paths
        indexOne_def isFile_def)
qed

text \<open>
  The claim as stated fails: with the file \<open>/w/a.txt\<close> present, a batch that starts with a
  \<open>replace\<close> rule without replacement, or with the search pattern \<open>*x\<close>, ends with the
  exception, and the \<open>append\<close> rule after it has not run.
\<close>

theorem malformed_rule_crashes_batch:
  "updateEnvironmentFiles (loadDefaultConfig\<lparr>fileUpdates := badBatch\<rparr>) indexOne ''f'' ''/w'' oneFile
     = Threw TypeError oneFile
   \<and> updateEnvironmentFiles (loadDefaultConfig\<lparr>fileUpdates := badRegexBatch\<rparr>) indexOne ''f'' ''/w''
       oneFile = Threw SyntaxError oneFile"
proof -
  have y: "substituteTemplate (loadDefaultConfig\<lparr>fileUpdates := badRegexBatch\<rparr>) ''y'' ''f'' 1 10
      = Ok ''y''"
    by (simp add: substituteTemplate_no_ports loadDefaultConfig_def replaceAll_def literal_def)
  show ?thesis
    using y
    by (simp add: updateEnvironmentFiles_def indexOne_def calculatePortOffset_def badBatch_def
        badRegexBatch_def processFileUpdate_def replaceInFile_def example_paths oneFile_def
        loadDefaultConfig_def RegExp_def syntaxChar_def Let_def pathExists_def readFile_def
        attempt_def)
qed

subsection \<open>Parsing the configuration\<close>



subsection \<open>Items of \<open>CONTAINER_NAMES\<close>\<close>




subsection \<open>A base port that is \<open>0\<close> or \<open>NaN\<close>\<close>



end
